theory Spec2Isabelle
  imports Complex_Main "HOL-Library.Signed_Division"
begin

section \<open>mdnfo: the document index and navigation engine of \<open>main.go\<close>\<close>

text \<open>
  Go strings are byte sequences; they are modelled as \<open>string\<close> (a list of 8-bit
  characters). Go's \<open>int\<close> is modelled as \<open>int\<close>: every integer of the program is a
  line number, a line count or a terminal dimension, far from the 64-bit bounds.
  Division and remainder are Go's truncating ones (\<open>sdiv\<close>, \<open>smod\<close>).
\<close>

subsection \<open>The functions of Go's \<open>strings\<close>, \<open>bytes\<close> and \<open>unicode\<close> packages that the code calls\<close>

definition NL :: char where
  "NL = CHR 0x0A"

definition ESC :: char where
  "ESC = CHR 0x1B"

text \<open>
  \<open>unicode.IsSpace\<close> on the ASCII range: tab, line feed, vertical tab, form feed,
  carriage return and space. (The white space beyond ASCII, U+0085 and U+00A0 among
  others, takes several bytes in UTF-8 and is outside this model.)
\<close>

definition isSpace :: "char \<Rightarrow> bool" where
  "isSpace c = (c \<in> {CHR 0x09, CHR 0x0A, CHR 0x0B, CHR 0x0C, CHR 0x0D, CHR '' ''})"

definition isUpper :: "char \<Rightarrow> bool" where
  "isUpper c = (65 \<le> (of_char c :: nat) \<and> (of_char c :: nat) \<le> 90)"

definition isLower :: "char \<Rightarrow> bool" where
  "isLower c = (97 \<le> (of_char c :: nat) \<and> (of_char c :: nat) \<le> 122)"

definition isDigit :: "char \<Rightarrow> bool" where
  "isDigit c = (48 \<le> (of_char c :: nat) \<and> (of_char c :: nat) \<le> 57)"

text \<open>
  \<open>strings.ToLower\<close>: an ASCII capital letter moves by \<open>'a' - 'A'\<close>; every other byte
  is kept. A letter beyond ASCII is lowered by Go to a letter beyond ASCII, which
  \<open>slugify\<close> then drops like the original, with two exceptions that are outside this
  model: U+0130 and U+212A, whose lower case is the ASCII \<open>i\<close> and \<open>k\<close>.
\<close>

definition lowerChar :: "char \<Rightarrow> char" where
  "lowerChar c = (if isUpper c then char_of ((of_char c :: nat) + 32) else c)"

definition ToLower :: "string \<Rightarrow> string" where
  "ToLower s = map lowerChar s"

text \<open>\<open>strings.ReplaceAll\<close> for a one-byte pattern and a one-byte replacement.\<close>

definition ReplaceAll :: "string \<Rightarrow> char \<Rightarrow> char \<Rightarrow> string" where
  "ReplaceAll s old new = map (\<lambda>c. if c = old then new else c) s"

text \<open>\<open>strings.Fields\<close>: the maximal runs of bytes that are not white space.\<close>

fun fieldsFrom :: "string \<Rightarrow> string \<Rightarrow> string list" where
  "fieldsFrom cur [] = (if cur = [] then [] else [cur])"
| "fieldsFrom cur (c # cs) =
     (if isSpace c then (if cur = [] then fieldsFrom [] cs else cur # fieldsFrom [] cs)
      else fieldsFrom (cur @ [c]) cs)"

definition Fields :: "string \<Rightarrow> string list" where
  "Fields s = fieldsFrom [] s"

fun Join :: "string list \<Rightarrow> string \<Rightarrow> string" where
  "Join [] sep = []"
| "Join [x] sep = x"
| "Join (x # y # ys) sep = x @ sep @ Join (y # ys) sep"

definition TrimLeft :: "string \<Rightarrow> string \<Rightarrow> string" where
  "TrimLeft s cutset = dropWhile (\<lambda>c. c \<in> set cutset) s"

definition TrimRight :: "string \<Rightarrow> string \<Rightarrow> string" where
  "TrimRight s cutset = rev (dropWhile (\<lambda>c. c \<in> set cutset) (rev s))"

definition Trim :: "string \<Rightarrow> string \<Rightarrow> string" where
  "Trim s cutset = TrimRight (TrimLeft s cutset) cutset"

definition TrimSpace :: "string \<Rightarrow> string" where
  "TrimSpace s = rev (dropWhile isSpace (rev (dropWhile isSpace s)))"

definition HasPrefix :: "string \<Rightarrow> string \<Rightarrow> bool" where
  "HasPrefix s p = (take (length p) s = p)"

definition TrimPrefix :: "string \<Rightarrow> string \<Rightarrow> string" where
  "TrimPrefix s p = (if HasPrefix s p then drop (length p) s else s)"

text \<open>
  \<open>strings.Index\<close>: the byte index of the first occurrence of the needle, \<open>-1\<close> when there
  is none.
\<close>

fun Index :: "string \<Rightarrow> string \<Rightarrow> int" where
  "Index [] n = (if n = [] then 0 else -1)"
| "Index (c # cs) n =
     (if HasPrefix (c # cs) n then 0
      else (let r = Index cs n in if r < 0 then -1 else r + 1))"

text \<open>\<open>bytes.Count\<close> for a one-byte separator.\<close>

definition Count :: "string \<Rightarrow> char \<Rightarrow> int" where
  "Count s sep = int (length (filter (\<lambda>c. c = sep) s))"

text \<open>\<open>strings.Split\<close> for a one-byte separator: always at least one piece.\<close>

fun splitFrom :: "string \<Rightarrow> char \<Rightarrow> string \<Rightarrow> string list" where
  "splitFrom cur sep [] = [cur]"
| "splitFrom cur sep (c # cs) =
     (if c = sep then cur # splitFrom [] sep cs else splitFrom (cur @ [c]) sep cs)"

definition Split :: "string \<Rightarrow> char \<Rightarrow> string list" where
  "Split s sep = splitFrom [] sep s"

subsection \<open>Links, headings and \<open>slugify\<close>\<close>

record link =
  link_text :: string
  link_target :: string
  link_renderedLine :: int

record heading =
  heading_text :: string
  heading_anchor :: string
  heading_renderedLine :: int

text \<open>The test of the loop of \<open>slugify\<close>: the runes written to the builder.\<close>

definition slugKeep :: "char \<Rightarrow> bool" where
  "slugKeep r = (isLower r \<or> isDigit r \<or> r = CHR '' '' \<or> r = CHR ''-'')"

definition slugify :: "string \<Rightarrow> string" where
  "slugify s =
     (let s1 = ToLower s;
          b = filter slugKeep s1
      in Trim (Join (Fields (ReplaceAll b (CHR '' '') (CHR ''-''))) ''-'') ''-'')"


text \<open>A run of two or more spaces.\<close>

fun hasSpaceRun :: "string \<Rightarrow> bool" where
  "hasSpaceRun (a # b # cs) = ((a = CHR '' '' \<and> b = CHR '' '') \<or> hasSpaceRun (b # cs))"
| "hasSpaceRun _ = False"

subsection \<open>Regular expressions\<close>

text \<open>
  The three patterns of the program are sequences of character classes with counted
  repetitions, line anchors and capture groups, and one top-level alternation. They are
  kept as data and run by a backtracking matcher with the leftmost-first preference of
  Go's \<open>regexp\<close>: a greedy repetition tries the longest count first, a lazy one the
  shortest, and an earlier alternative wins over a later one.
\<close>

datatype cclass =
    CSpace              \<comment> \<open>\<open>\s\<close>, which is \<open>[\t\n\f\r ]\<close>\<close>
  | CLit char           \<comment> \<open>one literal byte\<close>
  | CNot char           \<comment> \<open>\<open>[^c]\<close>; a negated class matches the line feed too\<close>
  | CDot                \<comment> \<open>\<open>.\<close>: anything but the line feed\<close>
  | CDigitSemi          \<comment> \<open>\<open>[0-9;]\<close>\<close>
  | CLetter             \<comment> \<open>\<open>[A-Za-z]\<close>\<close>

fun inClass :: "cclass \<Rightarrow> char \<Rightarrow> bool" where
  "inClass CSpace c = (c \<in> {CHR 0x09, CHR 0x0A, CHR 0x0C, CHR 0x0D, CHR '' ''})"
| "inClass (CLit x) c = (c = x)"
| "inClass (CNot x) c = (c \<noteq> x)"
| "inClass CDot c = (c \<noteq> NL)"
| "inClass CDigitSemi c = (isDigit c \<or> c = CHR '';'')"
| "inClass CLetter c = (isUpper c \<or> isLower c)"

datatype atom =
    Rep cclass nat "nat option" bool
      \<comment> \<open>a class repeated from a least to an optional greatest count; greedy when \<open>True\<close>\<close>
  | BOL    \<comment> \<open>\<open>^\<close> under \<open>(?m)\<close>\<close>
  | EOL    \<comment> \<open>\<open>$\<close> under \<open>(?m)\<close>\<close>
  | Mark   \<comment> \<open>a parenthesis of a capture group: records the position\<close>

definition Lit :: "char \<Rightarrow> atom" where
  "Lit c = Rep (CLit c) 1 (Some 1) True"

text \<open>
  \<open>matchSeq as prev rest pos\<close> matches the atoms at byte offset \<open>pos\<close>, where \<open>rest\<close> is the
  text from \<open>pos\<close> on and \<open>prev\<close> the byte before it (\<open>None\<close> at the start of the text).
  The result is the end offset and the recorded positions of the marks, in order.
\<close>

fun matchSeq :: "atom list \<Rightarrow> char option \<Rightarrow> string \<Rightarrow> nat \<Rightarrow> (nat \<times> nat list) option"
and tryCounts :: "atom list \<Rightarrow> nat list \<Rightarrow> char option \<Rightarrow> string \<Rightarrow> nat \<Rightarrow> (nat \<times> nat list) option"
where
  "matchSeq [] prev rest pos = Some (pos, [])"
| "matchSeq (BOL # as) prev rest pos =
     (if prev = None \<or> prev = Some NL then matchSeq as prev rest pos else None)"
| "matchSeq (EOL # as) prev rest pos =
     (if rest = [] \<or> hd rest = NL then matchSeq as prev rest pos else None)"
| "matchSeq (Mark # as) prev rest pos =
     (case matchSeq as prev rest pos of
        None \<Rightarrow> None
      | Some (e, ms) \<Rightarrow> Some (e, pos # ms))"
| "matchSeq (Rep c lo hi greedy # as) prev rest pos =
     (let avail = length (takeWhile (inClass c) rest);
          top = (case hi of None \<Rightarrow> avail | Some h \<Rightarrow> min h avail);
          ks = (if greedy then rev [lo..<Suc top] else [lo..<Suc top])
      in tryCounts as ks prev rest pos)"
| "tryCounts as [] prev rest pos = None"
| "tryCounts as (k # ks) prev rest pos =
     (case matchSeq as (if k = 0 then prev else Some (rest ! (k - 1))) (drop k rest) (pos + k) of
        Some r \<Rightarrow> Some r
      | None \<Rightarrow> tryCounts as ks prev rest pos)"

type_synonym regex = "atom list list"

fun matchAlts :: "regex \<Rightarrow> char option \<Rightarrow> string \<Rightarrow> nat \<Rightarrow> (nat \<times> nat list) option" where
  "matchAlts [] prev rest pos = None"
| "matchAlts (a # alts) prev rest pos =
     (case matchSeq a prev rest pos of
        Some r \<Rightarrow> Some r
      | None \<Rightarrow> matchAlts alts prev rest pos)"

text \<open>
  \<open>FindAll...\<close>: the successive leftmost matches, none overlapping another; each is
  (start, end, marks). \<open>skip\<close> counts the bytes still inside the last match. None of the
  three patterns matches the empty string, so Go's rule for empty matches is not needed.
\<close>

fun findAllFrom :: "regex \<Rightarrow> char option \<Rightarrow> string \<Rightarrow> nat \<Rightarrow> nat \<Rightarrow> (nat \<times> nat \<times> nat list) list" where
  "findAllFrom re prev [] pos skip =
     (if skip = 0 then (case matchAlts re prev [] pos of
                          Some (e, ms) \<Rightarrow> [(pos, e, ms)]
                        | None \<Rightarrow> [])
      else [])"
| "findAllFrom re prev (c # cs) pos skip =
     (if skip > 0 then findAllFrom re (Some c) cs (pos + 1) (skip - 1)
      else (case matchAlts re prev (c # cs) pos of
              Some (e, ms) \<Rightarrow> (pos, e, ms) # findAllFrom re (Some c) cs (pos + 1) (e - pos - 1)
            | None \<Rightarrow> findAllFrom re (Some c) cs (pos + 1) 0))"

definition FindAll :: "regex \<Rightarrow> string \<Rightarrow> (nat \<times> nat \<times> nat list) list" where
  "FindAll re s = findAllFrom re None s 0 0"

text \<open>\<open>ReplaceAllString(s, "")\<close>: the text with every match cut out.\<close>

fun removeAllFrom :: "regex \<Rightarrow> char option \<Rightarrow> string \<Rightarrow> nat \<Rightarrow> nat \<Rightarrow> string" where
  "removeAllFrom re prev [] pos skip = []"
| "removeAllFrom re prev (c # cs) pos skip =
     (if skip > 0 then removeAllFrom re (Some c) cs (pos + 1) (skip - 1)
      else (case matchAlts re prev (c # cs) pos of
              Some (e, ms) \<Rightarrow>
                (if e = pos then c # removeAllFrom re (Some c) cs (pos + 1) 0
                 else removeAllFrom re (Some c) cs (pos + 1) (e - pos - 1))
            | None \<Rightarrow> c # removeAllFrom re (Some c) cs (pos + 1) 0))"

text \<open>The slice \<open>s[a:b]\<close>.\<close>

definition slice :: "string \<Rightarrow> nat \<Rightarrow> nat \<Rightarrow> string" where
  "slice s a b = take (b - a) (drop a s)"

text \<open>\<open>ansiRE\<close> is \<^verbatim>\<open>\x1b\[[0-9;]*[A-Za-z]|\x1b\]8;;.*?\x1b\\|\x1b\\\<close>.\<close>

definition ansiRE :: regex where
  "ansiRE =
     [[Lit ESC, Lit (CHR ''[''), Rep CDigitSemi 0 None True, Rep CLetter 1 (Some 1) True],
      [Lit ESC, Lit (CHR '']''), Lit (CHR ''8''), Lit (CHR '';''), Lit (CHR '';''),
       Rep CDot 0 None False, Lit ESC, Lit (CHR 0x5C)],
      [Lit ESC, Lit (CHR 0x5C)]]"

definition stripANSI :: "string \<Rightarrow> string" where
  "stripANSI s = removeAllFrom ansiRE None s 0 0"

text \<open>\<open>reHeading\<close> is \<^verbatim>\<open>(?m)^\s{0,3}#{1,6}\s+(.*)$\<close>.\<close>

definition reHeading :: regex where
  "reHeading =
     [[BOL, Rep CSpace 0 (Some 3) True, Rep (CLit (CHR ''#'')) 1 (Some 6) True,
       Rep CSpace 1 None True, Mark, Rep CDot 0 None True, Mark, EOL]]"

text \<open>\<open>reLink\<close> is \<^verbatim>\<open>\[(?P<text>[^\]]+)\]\((?P<dest>[^)]+)\)\<close>.\<close>

definition reLink :: regex where
  "reLink =
     [[Lit (CHR ''[''), Mark, Rep (CNot (CHR '']'')) 1 None True, Mark, Lit (CHR '']''),
       Lit (CHR ''(''), Mark, Rep (CNot (CHR '')'')) 1 None True, Mark, Lit (CHR '')'')]]"


subsection \<open>The viewport\<close>

text \<open>
  \<open>viewport.Model\<close> belongs to the library \<open>charmbracelet/bubbles\<close>, not to this
  program. The fields and methods that \<open>main.go\<close> uses are modelled from the library:
  \<open>SetYOffset\<close> clamps the offset between \<open>0\<close> and \<open>maxYOffset\<close>, the number of content
  lines less the height (at least \<open>0\<close>); \<open>SetContent\<close> normalises the line ends, splits
  the text at line feeds and goes to the bottom when the offset is beyond the last line.
\<close>

record viewport =
  Width :: int
  Height :: int
  YOffset :: int
  lines :: "string list"

definition maxYOffset :: "viewport \<Rightarrow> int" where
  "maxYOffset v = max 0 (int (length (lines v)) - Height v)"

definition SetYOffset :: "viewport \<Rightarrow> int \<Rightarrow> viewport" where
  "SetYOffset v n = v\<lparr>YOffset := min (max n 0) (maxYOffset v)\<rparr>"

definition GotoTop :: "viewport \<Rightarrow> viewport" where
  "GotoTop v = SetYOffset v 0"

definition GotoBottom :: "viewport \<Rightarrow> viewport" where
  "GotoBottom v = SetYOffset v (maxYOffset v)"

fun normalizeLineEndings :: "string \<Rightarrow> string" where
  "normalizeLineEndings (a # b # cs) =
     (if a = CHR 0x0D \<and> b = CHR 0x0A then CHR 0x0A # normalizeLineEndings cs
      else a # normalizeLineEndings (b # cs))"
| "normalizeLineEndings cs = cs"

definition SetContent :: "viewport \<Rightarrow> string \<Rightarrow> viewport" where
  "SetContent v s =
     (let v1 = v\<lparr>lines := Split (normalizeLineEndings s) NL\<rparr>
      in if YOffset v1 > int (length (lines v1)) - 1 then GotoBottom v1 else v1)"

subsection \<open>The model\<close>

text \<open>
  The fields \<open>filename\<close>, \<open>fileMod\<close> and \<open>fileSize\<close> are read by the header only and are
  left out. \<open>err\<close> holds the message of a failed render.
\<close>

record model =
  rawMarkdown :: string
  view :: viewport
  rendered :: string
  renderedLines :: "string list"
  totalLines :: int
  links :: "link list"
  headings :: "heading list"
  linkIndex :: int
  theme :: string
  wrapWidth :: int
  err :: "string option"
  animating :: bool
  targetOffset :: int

definition clamp :: "int \<Rightarrow> int \<Rightarrow> int \<Rightarrow> int" where
  "clamp v lo hi = (if v < lo then lo else if v > hi then hi else v)"

definition max_go :: "int \<Rightarrow> int \<Rightarrow> int" where
  "max_go a b = (if a > b then a else b)"

subsection \<open>Indexing: \<open>indexLineOf\<close> and \<open>buildIndexes\<close>\<close>

definition indexLineOf :: "string \<Rightarrow> string \<Rightarrow> int" where
  "indexLineOf haystack needle =
     (if needle = [] then -1
      else (let pos = Index haystack needle
            in if pos < 0 then -1
               else Count (take (nat pos) haystack) NL))"

text \<open>The first loop of \<open>buildIndexes\<close>, over the matches of \<open>reHeading\<close>.\<close>

fun headingsOf :: "string \<Rightarrow> string \<Rightarrow> (nat \<times> nat \<times> nat list) list \<Rightarrow> heading list" where
  "headingsOf raw plain [] = []"
| "headingsOf raw plain ((b, e, ms) # rest) =
     (let txt = TrimSpace (slice raw (ms ! 0) (ms ! 1))
      in if txt = [] then headingsOf raw plain rest
         else (let anc = slugify txt;
                   idx = indexLineOf plain txt
               in \<lparr>heading_text = txt, heading_anchor = anc, heading_renderedLine = idx\<rparr>
                    # headingsOf raw plain rest))"

text \<open>The second loop, over the matches of \<open>reLink\<close>.\<close>

fun linksOf :: "string \<Rightarrow> string \<Rightarrow> (nat \<times> nat \<times> nat list) list \<Rightarrow> link list" where
  "linksOf raw plain [] = []"
| "linksOf raw plain ((b, e, ms) # rest) =
     (let text = slice raw (ms ! 0) (ms ! 1);
          dest = slice raw (ms ! 2) (ms ! 3);
          needle = (if HasPrefix dest ''#'' then text else dest);
          idx = indexLineOf plain needle
      in \<lparr>link_text = text, link_target = dest, link_renderedLine = idx\<rparr>
           # linksOf raw plain rest)"

definition buildIndexes :: "model \<Rightarrow> model" where
  "buildIndexes m =
     (let plain = stripANSI (rendered m);
          hs = headingsOf (rawMarkdown m) plain (FindAll reHeading (rawMarkdown m));
          ls = linksOf (rawMarkdown m) plain (FindAll reLink (rawMarkdown m));
          m1 = m\<lparr>headings := hs, links := ls\<rparr>
      in if length ls = 0 then m1\<lparr>linkIndex := -1\<rparr>
         else if linkIndex m1 \<ge> int (length ls) then m1\<lparr>linkIndex := int (length ls) - 1\<rparr>
         else m1)"

subsection \<open>Rendering\<close>

text \<open>
  The Markdown renderer (glamour) is outside the program: \<open>renderMarkdown\<close> is a
  parameter, from the raw text, the wrap width and the style to the styled text or an
  error message.
\<close>

type_synonym renderer = "string \<Rightarrow> int \<Rightarrow> string \<Rightarrow> string + string"

definition recalcRendered :: "renderer \<Rightarrow> model \<Rightarrow> int \<Rightarrow> int \<Rightarrow> model" where
  "recalcRendered renderMarkdown m width height =
     (let bodyHeight = (if height - 2 < 1 then 1 else height - 2);
          wrap = (if wrapWidth m \<le> 0 then width else wrapWidth m)
      in case renderMarkdown (rawMarkdown m) wrap (theme m) of
           Inl e \<Rightarrow> m\<lparr>err := Some e\<rparr>
         | Inr out \<Rightarrow>
             (let ls = Split (TrimRight out [NL]) NL;
                  m1 = m\<lparr>rendered := out, renderedLines := ls, totalLines := int (length ls)\<rparr>;
                  v1 = (if Width (view m1) \<noteq> width \<or> Height (view m1) \<noteq> bodyHeight
                        then (view m1)\<lparr>Width := width, Height := bodyHeight\<rparr>
                        else view m1);
                  m2 = m1\<lparr>view := SetContent v1 (rendered m1)\<rparr>
              in buildIndexes m2))"

subsection \<open>Scrolling and link navigation\<close>

text \<open>The commands that \<open>Update\<close> returns: none, \<open>tea.Quit\<close>, or the next \<open>scrollTicker()\<close>.\<close>

datatype cmd = NoCmd | Quit | Ticker

definition startScrollTo :: "model \<Rightarrow> int \<Rightarrow> model \<times> cmd" where
  "startScrollTo m target =
     (let maxOffset = max_go 0 (totalLines m - Height (view m));
          t1 = (if target < 0 then 0 else target);
          t2 = (if t1 > maxOffset then maxOffset else t1);
          m1 = m\<lparr>targetOffset := t2\<rparr>
      in if YOffset (view m1) = targetOffset m1 then (m1\<lparr>animating := False\<rparr>, NoCmd)
         else (m1\<lparr>animating := True\<rparr>, Ticker))"

definition initialModel :: "string \<Rightarrow> string \<Rightarrow> int \<Rightarrow> model" where
  "initialModel raw thm wrap =
     \<lparr>rawMarkdown = raw,
      view = \<lparr>Width = 0, Height = 0, YOffset = 0, lines = []\<rparr>,
      rendered = [], renderedLines = [], totalLines = 0,
      links = [], headings = [], linkIndex = -1,
      theme = thm, wrapWidth = wrap, err = None,
      animating = False, targetOffset = 0\<rparr>"

definition scrollToLink :: "model \<Rightarrow> model" where
  "scrollToLink m =
     (if linkIndex m < 0 \<or> linkIndex m \<ge> int (length (links m)) then m
      else (let line = link_renderedLine (links m ! nat (linkIndex m))
            in if line < 0 then m
               else (let t0 = line - Height (view m) sdiv 2;
                         t1 = (if t0 < 0 then 0 else t0);
                         t2 = (if t1 > totalLines m - Height (view m)
                               then totalLines m - Height (view m) else t1);
                         t3 = (if t2 < 0 then 0 else t2)
                     in m\<lparr>view := SetYOffset (view m) t3\<rparr>)))"

text \<open>The test of the loop of \<open>followLink\<close>.\<close>

definition anchorMatches :: "heading \<Rightarrow> string \<Rightarrow> bool" where
  "anchorMatches h anc =
     (heading_anchor h = anc \<or> slugify (heading_text h) = anc \<or> slugify anc = heading_anchor h)"

text \<open>The loop of \<open>followLink\<close>: the heading at which it jumps and returns, if any.\<close>

fun followHeadings :: "string \<Rightarrow> heading list \<Rightarrow> heading option" where
  "followHeadings anc [] = None"
| "followHeadings anc (h # hs) =
     (if anchorMatches h anc
      then (if heading_renderedLine h \<ge> 0 then Some h else followHeadings anc hs)
      else followHeadings anc hs)"

text \<open>
  \<open>followLink\<close> returns the new model and the address handed to \<open>openURL\<close>, if any; the
  result of \<open>openURL\<close> is discarded by the program.
\<close>

definition followLink :: "model \<Rightarrow> link \<Rightarrow> model \<times> string option" where
  "followLink m l =
     (let dest = TrimSpace (link_target l)
      in if dest = [] then (m, None)
         else if HasPrefix dest ''#'' then
           (let anc = TrimPrefix dest ''#''
            in case followHeadings anc (headings m) of
                 Some h \<Rightarrow>
                   (m\<lparr>view := SetYOffset (view m)
                       (clamp (heading_renderedLine h) 0
                          (max_go 0 (totalLines m - Height (view m))))\<rparr>, None)
               | None \<Rightarrow>
                   (if link_renderedLine l \<ge> 0
                    then (m\<lparr>view := SetYOffset (view m)
                            (clamp (link_renderedLine l) 0
                               (max_go 0 (totalLines m - Height (view m))))\<rparr>, None)
                    else (m, None)))
         else (m, Some dest))"

subsection \<open>\<open>Update\<close>\<close>

datatype key =
    KeyRunes string
  | KeyEsc | KeyUp | KeyDown | KeyPgUp | KeyCtrlB | KeyPgDown | KeyCtrlF
  | KeyHome | KeyEnd | KeyTab | KeyShiftTab | KeyEnter
  | KeyOther

datatype msg = WindowSizeMsg int int | KeyMsg key | ScrollTick

text \<open>The \<open>scrollTick\<close> case of \<open>Update\<close>.\<close>

definition scrollTickCase :: "model \<Rightarrow> model \<times> cmd" where
  "scrollTickCase m =
     (if \<not> animating m then (m, NoCmd)
      else (let cur = YOffset (view m);
                tgt = targetOffset m
            in if cur = tgt then (m\<lparr>animating := False\<rparr>, NoCmd)
               else (let diff = tgt - cur;
                         step0 = diff sdiv 5;
                         step = (if step0 = 0 then (if diff > 0 then 1 else -1) else step0);
                         newOff0 = cur + step;
                         newOff = (if (diff > 0 \<and> newOff0 > tgt) \<or> (diff < 0 \<and> newOff0 < tgt)
                                   then tgt else newOff0);
                         m1 = m\<lparr>view := SetYOffset (view m) newOff\<rparr>
                     in if newOff \<noteq> tgt then (m1, Ticker)
                        else (m1\<lparr>animating := False\<rparr>, NoCmd))))"

text \<open>The \<open>KeyTab\<close> and \<open>KeyShiftTab\<close> cases.\<close>

definition keyTabCase :: "model \<Rightarrow> model" where
  "keyTabCase m =
     (if length (links m) > 0
      then (let m1 = (if linkIndex m = -1 then m\<lparr>linkIndex := 0\<rparr>
                      else m\<lparr>linkIndex := (linkIndex m + 1) smod int (length (links m))\<rparr>)
            in scrollToLink m1)
      else m)"

definition keyShiftTabCase :: "model \<Rightarrow> model" where
  "keyShiftTabCase m =
     (if length (links m) > 0
      then (let m1 = (if linkIndex m = -1 then m\<lparr>linkIndex := int (length (links m)) - 1\<rparr>
                      else m\<lparr>linkIndex :=
                             (linkIndex m - 1 + int (length (links m))) smod int (length (links m))\<rparr>)
            in scrollToLink m1)
      else m)"

definition keyEnterCase :: "model \<Rightarrow> model \<times> string option" where
  "keyEnterCase m =
     (if linkIndex m \<ge> 0 \<and> linkIndex m < int (length (links m))
      then followLink m (links m ! nat (linkIndex m))
      else (m, None))"

text \<open>
  \<open>Update\<close> returns the model, the command, and the address handed to \<open>openURL\<close> if any.
  The viewport's own \<open>Update\<close> does nothing on a \<open>WindowSizeMsg\<close>.
\<close>

fun Update :: "renderer \<Rightarrow> model \<Rightarrow> msg \<Rightarrow> model \<times> cmd \<times> string option" where
  "Update r m (WindowSizeMsg w h) = (recalcRendered r m w h, NoCmd, None)"
| "Update r m (KeyMsg k) =
     (if k = KeyRunes ''q'' \<or> k = KeyRunes ''Q'' then (m, Quit, None)
      else (case k of
              KeyEsc \<Rightarrow> (m, Quit, None)
            | KeyUp \<Rightarrow> (let (m1, c) = startScrollTo m (YOffset (view m) - 1) in (m1, c, None))
            | KeyDown \<Rightarrow> (let (m1, c) = startScrollTo m (YOffset (view m) + 1) in (m1, c, None))
            | KeyPgUp \<Rightarrow>
                (let (m1, c) = startScrollTo m (YOffset (view m) - Height (view m)) in (m1, c, None))
            | KeyCtrlB \<Rightarrow>
                (let (m1, c) = startScrollTo m (YOffset (view m) - Height (view m)) in (m1, c, None))
            | KeyPgDown \<Rightarrow>
                (let (m1, c) = startScrollTo m (YOffset (view m) + Height (view m)) in (m1, c, None))
            | KeyCtrlF \<Rightarrow>
                (let (m1, c) = startScrollTo m (YOffset (view m) + Height (view m)) in (m1, c, None))
            | KeyHome \<Rightarrow> (m\<lparr>view := GotoTop (view m)\<rparr>, NoCmd, None)
            | KeyEnd \<Rightarrow> (m\<lparr>view := GotoBottom (view m)\<rparr>, NoCmd, None)
            | KeyTab \<Rightarrow> (keyTabCase m, NoCmd, None)
            | KeyShiftTab \<Rightarrow> (keyShiftTabCase m, NoCmd, None)
            | KeyEnter \<Rightarrow> (let (m1, u) = keyEnterCase m in (m1, NoCmd, u))
            | _ \<Rightarrow> (m, NoCmd, None)))"
| "Update r m ScrollTick = (let (m1, c) = scrollTickCase m in (m1, c, None))"

subsection \<open>The footer of \<open>View\<close>\<close>

text \<open>
  Go's \<open>float64\<close> arithmetic is not part of HOL. The operations that \<open>View\<close> and
  \<open>drawProgressBar\<close> use are a parameter: the conversion \<open>float64(n)\<close> (which also gives
  the constants \<open>0\<close> and \<open>1\<close>), the division, the multiplication, the comparison \<open><\<close> and
  the truncating conversion \<open>int(x)\<close>.
\<close>

record 'f float64 =
  ofInt :: "int \<Rightarrow> 'f"
  fdiv :: "'f \<Rightarrow> 'f \<Rightarrow> 'f"
  fmul :: "'f \<Rightarrow> 'f \<Rightarrow> 'f"
  fless :: "'f \<Rightarrow> 'f \<Rightarrow> bool"
  toInt :: "'f \<Rightarrow> int"

text \<open>
  The bar is a slice of runes: the full block, the light shade, or a character of the
  label.
\<close>

datatype cell = Full | Shade | Ch char

text \<open>\<open>strings.Repeat\<close> panics on a negative count.\<close>

datatype error = NegativeRepeatCount

text \<open>The verb \<open>%d\<close> of \<open>fmt.Sprintf\<close>.\<close>

fun showNat :: "nat \<Rightarrow> string" where
  "showNat n =
     (if n < 10 then [char_of (48 + n)]
      else showNat (n div 10) @ [char_of (48 + n mod 10)])"

definition showInt :: "int \<Rightarrow> string" where
  "showInt n = (if n < 0 then CHR ''-'' # showNat (nat (- n)) else showNat (nat n))"

text \<open>The loop of \<open>drawProgressBar\<close> that writes the label over the bar.\<close>

fun labelLoop :: "nat \<Rightarrow> nat \<Rightarrow> string \<Rightarrow> cell list \<Rightarrow> cell list" where
  "labelLoop start i [] runes = runes"
| "labelLoop start i (c # cs) runes =
     (if start + i < length runes then labelLoop start (Suc i) cs (runes[start + i := Ch c])
      else runes)"

definition drawProgressBar :: "'f float64 \<Rightarrow> int \<Rightarrow> 'f \<Rightarrow> string \<Rightarrow> error + cell list" where
  "drawProgressBar F width ratio label =
     (if width < 3
      then (if width < 0 then Inl NegativeRepeatCount else Inr (replicate (nat width) Full))
      else (let fill0 = toInt F (fmul F (ofInt F width) ratio);
                fill1 = (if fill0 < 0 then 0 else fill0);
                fill = (if fill1 > width then width else fill1);
                bar = replicate (nat fill) Full
                      @ (if fill < width then replicate (nat (width - fill)) Shade else [])
            in if length label > 0 \<and> int (length label) < width
               then (let start = (width - int (length label)) sdiv 2
                     in Inr (labelLoop (nat start) 0 label bar))
               else Inr bar))"

text \<open>
  The parts of \<open>View\<close> that make the footer: the label, the ratio and the bar
  (\<open>progress\<close>). \<open>View\<close> reaches them when \<open>err\<close> is not set; otherwise it returns the
  error message alone.
\<close>

definition View_label :: "model \<Rightarrow> string" where
  "View_label m =
     (let current0 = YOffset (view m) + Height (view m);
          current1 = (if current0 > totalLines m then totalLines m else current0);
          current = (if current1 < 1 \<and> totalLines m > 0 then 1 else current1);
          total = max_go 1 (totalLines m)
      in '' '' @ showInt current @ '' / '' @ showInt total @ '' '')"

definition View_ratio :: "'f float64 \<Rightarrow> model \<Rightarrow> 'f" where
  "View_ratio F m =
     (let den = ofInt F (max_go 1 (totalLines m - Height (view m)))
      in if fless F (ofInt F 0) den
         then (let r0 = fdiv F (ofInt F (YOffset (view m))) den;
                   r1 = (if fless F r0 (ofInt F 0) then ofInt F 0 else r0)
               in if fless F (ofInt F 1) r1 then ofInt F 1 else r1)
         else ofInt F 0)"

definition View_progress :: "'f float64 \<Rightarrow> model \<Rightarrow> error + cell list" where
  "View_progress F m =
     (let w = (if Width (view m) \<le> 0 then 80 else Width (view m))
      in drawProgressBar F w (View_ratio F m) (View_label m))"

subsection \<open>Notions used by the properties\<close>

text \<open>One \<open>scrollTick\<close> message, and \<open>n\<close> of them in a row.\<close>

definition tick :: "model \<Rightarrow> model" where
  "tick m = fst (scrollTickCase m)"




text \<open>
  A model for the examples: 30 rendered lines (32 in the viewport, for two trailing line
  feeds), a body height of 10.
\<close>

definition demoModel :: "int \<Rightarrow> bool \<Rightarrow> int \<Rightarrow> link list \<Rightarrow> heading list \<Rightarrow> int \<Rightarrow> model" where
  "demoModel off anim tgt ls hs li =
     \<lparr>rawMarkdown = [],
      view = \<lparr>Width = 80, Height = 10, YOffset = off, lines = replicate 32 []\<rparr>,
      rendered = [], renderedLines = replicate 30 [], totalLines = 30,
      links = ls, headings = hs, linkIndex = li,
      theme = ''auto'', wrapWidth = 0, err = None,
      animating = anim, targetOffset = tgt\<rparr>"

text \<open>
  The bound of the viewport offset, and the same bound for the target of the animation.
\<close>

definition scrollInv :: "model \<Rightarrow> bool" where
  "scrollInv m =
     (0 \<le> YOffset (view m)
      \<and> YOffset (view m) \<le> max 0 (totalLines m - Height (view m))
      \<and> 0 \<le> targetOffset m
      \<and> targetOffset m \<le> max 0 (totalLines m - Height (view m)))"

text \<open>
  The messages that are scroll requests, ticks, link-centring jumps and link follows, and
  the run of \<open>Update\<close> over a list of messages.
\<close>

definition isNavMsg :: "msg \<Rightarrow> bool" where
  "isNavMsg x =
     (x \<in> {KeyMsg KeyUp, KeyMsg KeyDown, KeyMsg KeyPgUp, KeyMsg KeyCtrlB, KeyMsg KeyPgDown,
            KeyMsg KeyCtrlF, KeyMsg KeyTab, KeyMsg KeyShiftTab, KeyMsg KeyEnter, ScrollTick})"

fun run :: "renderer \<Rightarrow> model \<Rightarrow> msg list \<Rightarrow> model" where
  "run r m [] = m"
| "run r m (x # xs) = run r (fst (Update r m x)) xs"

definition demoLinks :: "link list" where
  "demoLinks =
     [\<lparr>link_text = ''here'', link_target = ''#title'', link_renderedLine = 27\<rparr>,
      \<lparr>link_text = ''site'', link_target = ''https://example.org'', link_renderedLine = -1\<rparr>]"

definition demoMsgs :: "msg list" where
  "demoMsgs = [KeyMsg KeyPgDown, ScrollTick, ScrollTick, KeyMsg KeyTab, KeyMsg KeyEnter,
               KeyMsg KeyUp, ScrollTick]"

text \<open>\<open>n\<close> presses of Tab in a row.\<close>

definition tabs :: "nat \<Rightarrow> model \<Rightarrow> model" where
  "tabs n m = (keyTabCase ^^ n) m"

text \<open>The selected index is \<open>-1\<close> or the index of a link.\<close>

definition linkOK :: "model \<Rightarrow> bool" where
  "linkOK m = (linkIndex m = -1 \<or> (0 \<le> linkIndex m \<and> linkIndex m < int (length (links m))))"

text \<open>
  The states of a run: the initial model, then any messages. The call of
  \<open>recalcRendered\<close> in \<open>main\<close> before the program starts is the step of a \<open>WindowSizeMsg\<close>.
\<close>

inductive reachable :: "renderer \<Rightarrow> model \<Rightarrow> bool" for r :: renderer where
  start: "reachable r (initialModel raw thm wrap)"
| step: "reachable r m \<Longrightarrow> reachable r (fst (Update r m x))"

text \<open>
  The document of the end-to-end scenario of the specification, a rendering of it with
  styling sequences, and states built from them.
\<close>

definition demoDoc :: string where
  "demoDoc = ''# Title'' @ [NL, NL] @ ''See [here](#title) and [site](https://example.org).'' @ [NL]"

definition demoRendered :: string where
  "demoRendered = [NL] @ ''  '' @ [ESC] @ ''[1mTitle'' @ [ESC] @ ''[0m'' @ [NL, NL]
                  @ ''  See here and site https://example.org.'' @ [NL, NL]"

definition demoRenderer :: renderer where
  "demoRenderer raw wrap sty = Inr demoRendered"

definition docModel :: "int \<Rightarrow> model" where
  "docModel li = (initialModel demoDoc ''auto'' 0)\<lparr>rendered := demoRendered, linkIndex := li\<rparr>"

definition demoState :: model where
  "demoState =
     fst (Update demoRenderer
            (fst (Update demoRenderer (initialModel demoDoc ''auto'' 0) (WindowSizeMsg 80 24)))
            (KeyMsg KeyTab))"

text \<open>Headings and links for the examples of link following.\<close>

definition introHeading :: heading where
  "introHeading = \<lparr>heading_text = ''Introduction'', heading_anchor = ''intro'', heading_renderedLine = 7\<rparr>"

definition staleHeading :: heading where
  "staleHeading = \<lparr>heading_text = ''Intro *one*'', heading_anchor = ''intro-one'', heading_renderedLine = -1\<rparr>"

definition freshHeading :: heading where
  "freshHeading = \<lparr>heading_text = ''Intro one'', heading_anchor = ''intro-one'', heading_renderedLine = 12\<rparr>"

definition anchorLink :: "string \<Rightarrow> int \<Rightarrow> link" where
  "anchorLink target line = \<lparr>link_text = ''here'', link_target = target, link_renderedLine = line\<rparr>"

text \<open>The needle of a link: its text for an anchor link, its target otherwise.\<close>

definition needleOf :: "link \<Rightarrow> string" where
  "needleOf l = (if HasPrefix (link_target l) ''#'' then link_text l else link_target l)"

text \<open>
  The heading rule as the specification words it, line by line: up to 3 leading spaces,
  1 to 6 \<open>#\<close> characters, white space, and a remainder that is not blank once trimmed.
\<close>

definition spec_headingLine :: "string \<Rightarrow> string option" where
  "spec_headingLine line =
     (let k = length (takeWhile (\<lambda>c. c = CHR '' '') line);
          rest = drop k line;
          h = length (takeWhile (\<lambda>c. c = CHR ''#'') rest);
          rem = drop h rest
      in if k > 3 \<or> h < 1 \<or> h > 6 then None
         else if rem = [] \<or> \<not> isSpace (hd rem) then None
         else if TrimSpace rem = [] then None
         else Some (TrimSpace rem))"

definition spec_headingTexts :: "string \<Rightarrow> string list" where
  "spec_headingTexts raw = List.map_filter spec_headingLine (Split raw NL)"

text \<open>The texts of the headings that \<open>buildIndexes\<close> extracts from a raw document.\<close>

definition headingTexts :: "string \<Rightarrow> string list" where
  "headingTexts raw = map heading_text (headings (buildIndexes (initialModel raw ''auto'' 0)))"

text \<open>
  Exact rational arithmetic as an instance of the float operations, and a model with a
  given width, height, line count and offset.
\<close>

definition truncRat :: "rat \<Rightarrow> int" where
  "truncRat x = (if x < 0 then - \<lfloor>- x\<rfloor> else \<lfloor>x\<rfloor>)"

definition exactFloat :: "rat float64" where
  "exactFloat = \<lparr>ofInt = of_int, fdiv = (/), fmul = (*), fless = (<), toInt = truncRat\<rparr>"

definition barModel :: "int \<Rightarrow> int \<Rightarrow> int \<Rightarrow> int \<Rightarrow> model" where
  "barModel width height tot off =
     (initialModel [] ''auto'' 0)
       \<lparr>view := \<lparr>Width = width, Height = height, YOffset = off, lines = []\<rparr>,
        totalLines := tot\<rparr>"

text \<open>
  The bar as the specification words it: filled blocks, then empty ones; and the label
  centred over a bar.
\<close>

definition spec_bar :: "int \<Rightarrow> int \<Rightarrow> cell list" where
  "spec_bar fill width = replicate (nat fill) Full @ replicate (nat (width - fill)) Shade"

definition spec_centred :: "string \<Rightarrow> cell list \<Rightarrow> cell list" where
  "spec_centred label bar =
     (let start = (length bar - length label) div 2
      in take start bar @ map Ch label @ drop (start + length label) bar)"

text \<open>
  What the boundary case needs of the float operations, all true of \<open>float64\<close>:
  \<open>0 / 1 = 0\<close>, neither \<open>0 < 0\<close> nor \<open>1 < 0\<close>, and \<open>int(w * 0) = 0\<close>.
\<close>

definition zeroLaws :: "'f float64 \<Rightarrow> bool" where
  "zeroLaws F =
     (fdiv F (ofInt F 0) (ofInt F 1) = ofInt F 0
      \<and> \<not> fless F (ofInt F 0) (ofInt F 0)
      \<and> \<not> fless F (ofInt F 1) (ofInt F 0)
      \<and> (\<forall>w. toInt F (fmul F (ofInt F w) (ofInt F 0)) = 0))"

text \<open>The width of the footer: the viewport's, or 80 when that is not positive.\<close>

definition footerWidth :: "model \<Rightarrow> int" where
  "footerWidth m = (if Width (view m) \<le> 0 then 80 else Width (view m))"


text \<open>
  A document whose rendering carries colour sequences between the words of the heading
  and the address of the link inside a hyperlink sequence.
\<close>

definition styledDoc :: string where
  "styledDoc = ''# My Title'' @ [NL, NL] @ ''See [site](https://example.org).'' @ [NL]"

definition styledRendered :: string where
  "styledRendered =
     [NL] @ ''  '' @ [ESC] @ ''[1;35mMy'' @ [ESC] @ ''[0m'' @ '' '' @ [ESC] @ ''[1;35mTitle''
     @ [ESC] @ ''[0m'' @ [NL, NL]
     @ ''  See '' @ [ESC] @ '']8;;https://example.org'' @ [ESC, CHR 0x5C] @ ''site''
     @ [ESC] @ '']8;;'' @ [ESC, CHR 0x5C] @ ''.'' @ [NL]"

definition styledModel :: model where
  "styledModel = (initialModel styledDoc ''auto'' 0)\<lparr>rendered := styledRendered\<rparr>"

text \<open>
  Two runs from the initial model: a first render in a terminal of 5 rows and the End
  key; and a first render, one line down, a tick and a resize to 24 rows.
\<close>

definition afterEnd :: model where
  "afterEnd = run demoRenderer (initialModel demoDoc ''auto'' 0) [WindowSizeMsg 80 5, KeyMsg KeyEnd]"

definition afterResize :: model where
  "afterResize = run demoRenderer (initialModel demoDoc ''auto'' 0)
                   [WindowSizeMsg 80 5, KeyMsg KeyDown, ScrollTick, WindowSizeMsg 80 24]"

section \<open>Properties\<close>

subsection \<open>\<open>slugify\<close>\<close>

lemma fieldsFrom_nospace:
  "\<forall>c\<in>set s. \<not> isSpace c \<Longrightarrow> fieldsFrom cur s = (if cur @ s = [] then [] else [cur @ s])"
  by (induction s arbitrary: cur) auto

lemma Fields_nospace:
  "\<forall>c\<in>set s. \<not> isSpace c \<Longrightarrow> Join (Fields s) sep = s"
  by (simp add: Fields_def fieldsFrom_nospace)

lemma isSpace_cases: "isSpace c \<Longrightarrow> of_char c \<in> {9::nat, 10, 11, 12, 13, 32}"
  by (auto simp: isSpace_def)

lemma hyphen_not_isSpace: "\<not> isSpace (CHR ''-'')"
  by (simp add: isSpace_def)

lemma slugKeep_not_isSpace: "slugKeep c \<Longrightarrow> c \<noteq> CHR '' '' \<Longrightarrow> \<not> isSpace c"
  by (auto simp: slugKeep_def isLower_def isDigit_def dest!: isSpace_cases)

lemma slugify_eq:
  "slugify s = Trim (ReplaceAll (filter slugKeep (ToLower s)) (CHR '' '') (CHR ''-'')) ''-''"
proof -
  have "\<forall>c\<in>set (ReplaceAll (filter slugKeep (ToLower s)) (CHR '' '') (CHR ''-'')). \<not> isSpace c"
    by (auto simp: ReplaceAll_def hyphen_not_isSpace slugKeep_not_isSpace)
  then show ?thesis
    by (simp add: slugify_def Let_def Fields_nospace)
qed

lemma Trim_set: "set (Trim s cs) \<subseteq> set s"
  unfolding Trim_def TrimLeft_def TrimRight_def
  by (auto dest!: set_dropWhileD)

lemma dropWhile_no_hd: "take 1 (dropWhile P xs) = [c] \<Longrightarrow> \<not> P c"
proof (cases "dropWhile P xs")
  case Nil
  assume "take 1 (dropWhile P xs) = [c]"
  with Nil show ?thesis by (metis take_Nil list.distinct(1))
next
  case (Cons y ys)
  assume "take 1 (dropWhile P xs) = [c]"
  with Cons have "y = c" by simp
  moreover from Cons have "\<not> P (hd (dropWhile P xs))"
    using hd_dropWhile[of P xs] by simp
  ultimately show ?thesis using Cons by simp
qed

lemma rev_dropWhile_rev_prefix: "\<exists>zs. xs = rev (dropWhile P (rev xs)) @ zs"
  by (metis rev_append rev_rev_ident takeWhile_dropWhile_id)

lemma Trim_last: "take 1 (rev (Trim s cs)) = [c] \<Longrightarrow> c \<notin> set cs"
  unfolding Trim_def TrimLeft_def TrimRight_def
  using dropWhile_no_hd[of "\<lambda>c. c \<in> set cs" _ c] by simp

lemma Trim_first: "take 1 (Trim s cs) = [c] \<Longrightarrow> c \<notin> set cs"
proof -
  assume a: "take 1 (Trim s cs) = [c]"
  let ?P = "\<lambda>c. c \<in> set cs"
  let ?t = "dropWhile ?P s"
  obtain zs where z: "?t = Trim s cs @ zs"
    unfolding Trim_def TrimLeft_def TrimRight_def
    using rev_dropWhile_rev_prefix[of ?t ?P] by blast
  from a have "Trim s cs \<noteq> []" by auto
  with a z have "take 1 ?t = [c]" by (cases "Trim s cs") auto
  then show ?thesis using dropWhile_no_hd[of ?P s c] by simp
qed

text \<open>
  Claim C4, as amended. For every input the slug holds only the lower-case letters
  \<open>a\<close> to \<open>z\<close>, digits and hyphens, and neither starts nor ends with a hyphen. When the
  kept characters hold no run of two or more spaces, the slug is the lower-cased input,
  restricted to \<open>a\<close>-\<open>z\<close>, \<open>0\<close>-\<open>9\<close>, space and hyphen, with each space turned into a
  hyphen and the hyphens at both ends trimmed. The hyphens of the input are kept as they
  are: \<open>slugify "Getting Started!"\<close> is \<open>"getting-started"\<close> and \<open>slugify "  A---B  "\<close> is
  \<open>"a---b"\<close>.
\<close>

theorem slugify_shape:
  "set (slugify s) \<subseteq> {c. isLower c \<or> isDigit c \<or> c = CHR ''-''}
   \<and> take 1 (slugify s) \<noteq> ''-''
   \<and> take 1 (rev (slugify s)) \<noteq> ''-''
   \<and> (\<not> hasSpaceRun (filter slugKeep (ToLower s)) \<longrightarrow>
        slugify s = Trim (ReplaceAll (filter slugKeep (ToLower s)) (CHR '' '') (CHR ''-'')) ''-'')
   \<and> slugify ''Getting Started!'' = ''getting-started''
   \<and> slugify ''  A---B  '' = ''a---b''"
proof -
  have 1: "set (slugify s) \<subseteq> {c. isLower c \<or> isDigit c \<or> c = CHR ''-''}"
    using Trim_set[of "ReplaceAll (filter slugKeep (ToLower s)) (CHR '' '') (CHR ''-'')" "''-''"]
    by (auto simp: slugify_eq ReplaceAll_def slugKeep_def split: if_splits)
  have 2: "take 1 (slugify s) \<noteq> ''-''"
    using Trim_first[of _ "''-''" "CHR ''-''"] by (auto simp: slugify_eq)
  have 3: "take 1 (rev (slugify s)) \<noteq> ''-''"
    using Trim_last[of _ "''-''" "CHR ''-''"] by (auto simp: slugify_eq)
  have 4: "slugify ''Getting Started!'' = ''getting-started''" by code_simp
  have 5: "slugify ''  A---B  '' = ''a---b''" by code_simp
  from 1 2 3 4 5 show ?thesis using slugify_eq by blast
qed

text \<open>
  Witness for C4: \<open>"Read Me - now"\<close> has no run of spaces among its kept characters, and
  its slug is as the theorem says.
\<close>

theorem slugify_shape_witness:
  "\<not> hasSpaceRun (filter slugKeep (ToLower ''Read Me - now''))
   \<and> slugify ''Read Me - now'' = ''read-me---now''
   \<and> take 1 (slugify ''Read Me - now'') \<noteq> ''-''"
proof -
  have h: "\<not> hasSpaceRun (filter slugKeep (ToLower ''Read Me - now''))" by code_simp
  have e: "Trim (ReplaceAll (filter slugKeep (ToLower ''Read Me - now'')) (CHR '' '') (CHR ''-'')) ''-''
           = ''read-me---now''"
    by code_simp
  show ?thesis using h e slugify_shape[of "''Read Me - now''"] by simp
qed

text \<open>
  Counterexample to C4 as stated: the run of hyphens of \<open>"  A---B  "\<close> does not collapse,
  so the slug is not \<open>"a-b"\<close>.
\<close>

theorem slugify_hyphens_counterexample: "slugify ''  A---B  '' \<noteq> ''a-b''"
  by code_simp

subsection \<open>The scroll engine\<close>

lemma sdiv5_pos: "0 < d \<Longrightarrow> d sdiv 5 = d div (5::int)"
  by (simp add: signed_divide_int_def)

lemma sdiv5_neg: "d < 0 \<Longrightarrow> d sdiv 5 = - ((- d) div (5::int))"
  by (simp add: signed_divide_int_def)


lemma tick_frame:
  "targetOffset (tick m) = targetOffset m \<and> totalLines (tick m) = totalLines m
   \<and> Height (view (tick m)) = Height (view m) \<and> lines (view (tick m)) = lines (view m)"
  by (simp add: tick_def scrollTickCase_def Let_def SetYOffset_def)


lemma tick_idle: "\<not> animating m \<Longrightarrow> tick m = m"
  by (simp add: tick_def scrollTickCase_def)

lemma tick_at_target:
  "animating m \<Longrightarrow> YOffset (view m) = targetOffset m \<Longrightarrow> tick m = m\<lparr>animating := False\<rparr>"
  by (simp add: tick_def scrollTickCase_def)











subsection \<open>The bound of the viewport offset\<close>

lemma SetYOffset_frame: "Height (SetYOffset v n) = Height v \<and> lines (SetYOffset v n) = lines v
   \<and> Width (SetYOffset v n) = Width v"
  by (simp add: SetYOffset_def)

lemma SetYOffset_range:
  "0 \<le> n \<Longrightarrow> n \<le> b \<Longrightarrow> 0 \<le> YOffset (SetYOffset v n) \<and> YOffset (SetYOffset v n) \<le> b"
  by (simp add: SetYOffset_def maxYOffset_def)

lemma tick_setY:
  assumes "animating m" "YOffset (view m) \<noteq> targetOffset m"
  shows "\<exists>n. view (tick m) = SetYOffset (view m) n
           \<and> (YOffset (view m) < targetOffset m \<longrightarrow> YOffset (view m) < n \<and> n \<le> targetOffset m)
           \<and> (targetOffset m < YOffset (view m) \<longrightarrow> targetOffset m \<le> n \<and> n < YOffset (view m))"
proof -
  define q where "q = (targetOffset m - YOffset (view m)) sdiv 5"
  have b: "(YOffset (view m) < targetOffset m \<longrightarrow> 0 \<le> q \<and> q \<le> targetOffset m - YOffset (view m))
         \<and> (targetOffset m < YOffset (view m) \<longrightarrow> q \<le> 0 \<and> targetOffset m - YOffset (view m) \<le> q)"
    unfolding q_def using sdiv5_pos[of "targetOffset m - YOffset (view m)"]
      sdiv5_neg[of "targetOffset m - YOffset (view m)"] by auto
  show ?thesis
    using assms b
    unfolding tick_def scrollTickCase_def Let_def q_def[symmetric]
    by (auto split: if_splits)
qed

lemma scrollInv_tick: "scrollInv m \<Longrightarrow> scrollInv (tick m)"
proof (cases "animating m \<and> YOffset (view m) \<noteq> targetOffset m")
  case False
  assume "scrollInv m"
  then show ?thesis using False
    by (cases "animating m") (auto simp: tick_idle tick_at_target scrollInv_def)
next
  case True
  assume i: "scrollInv m"
  from tick_setY[of m] True obtain n where n: "view (tick m) = SetYOffset (view m) n"
    "YOffset (view m) < targetOffset m \<longrightarrow> YOffset (view m) < n \<and> n \<le> targetOffset m"
    "targetOffset m < YOffset (view m) \<longrightarrow> targetOffset m \<le> n \<and> n < YOffset (view m)"
    by blast
  have "0 \<le> n \<and> n \<le> max 0 (totalLines m - Height (view m))"
    using i n(2,3) True unfolding scrollInv_def by linarith
  then have "0 \<le> YOffset (SetYOffset (view m) n)
      \<and> YOffset (SetYOffset (view m) n) \<le> max 0 (totalLines m - Height (view m))"
    using SetYOffset_range by blast
  then show ?thesis
    using i unfolding scrollInv_def n(1)[symmetric] by (simp add: tick_frame)
qed

lemma scrollInv_startScrollTo: "scrollInv m \<Longrightarrow> scrollInv (fst (startScrollTo m t))"
  by (auto simp: scrollInv_def startScrollTo_def Let_def max_go_def)

lemma scrollInv_setY:
  "scrollInv m \<Longrightarrow> 0 \<le> n \<Longrightarrow> n \<le> max 0 (totalLines m - Height (view m)) \<Longrightarrow>
   scrollInv (m\<lparr>view := SetYOffset (view m) n\<rparr>)"
  using SetYOffset_range[of n "max 0 (totalLines m - Height (view m))" "view m"]
  by (simp add: scrollInv_def SetYOffset_frame)

lemma scrollInv_scrollToLink: "scrollInv m \<Longrightarrow> scrollInv (scrollToLink m)"
  by (auto simp: scrollToLink_def Let_def intro!: scrollInv_setY)

lemma scrollToLink_frame:
  "totalLines (scrollToLink m) = totalLines m \<and> Height (view (scrollToLink m)) = Height (view m)
   \<and> links (scrollToLink m) = links m \<and> linkIndex (scrollToLink m) = linkIndex m"
  by (simp add: scrollToLink_def Let_def SetYOffset_frame)

lemma clamp_range: "lo \<le> hi \<Longrightarrow> lo \<le> clamp v lo hi \<and> clamp v lo hi \<le> hi"
  by (simp add: clamp_def)

lemma max_go_eq: "max_go a b = max a b"
  by (simp add: max_go_def max_def)

lemma scrollInv_followLink: "scrollInv m \<Longrightarrow> scrollInv (fst (followLink m l))"
  using clamp_range[of 0 "max 0 (totalLines m - Height (view m))"]
  by (auto simp: followLink_def Let_def max_go_eq split: option.splits intro!: scrollInv_setY)

lemma followLink_frame:
  "totalLines (fst (followLink m l)) = totalLines m
   \<and> Height (view (fst (followLink m l))) = Height (view m)
   \<and> links (fst (followLink m l)) = links m \<and> linkIndex (fst (followLink m l)) = linkIndex m"
  by (simp add: followLink_def Let_def SetYOffset_frame split: option.splits)

lemma startScrollTo_frame:
  "totalLines (fst (startScrollTo m t)) = totalLines m
   \<and> Height (view (fst (startScrollTo m t))) = Height (view m)
   \<and> links (fst (startScrollTo m t)) = links m \<and> linkIndex (fst (startScrollTo m t)) = linkIndex m"
  by (simp add: startScrollTo_def Let_def)

lemma scrollInv_linkIndex: "scrollInv (m\<lparr>linkIndex := i\<rparr>) = scrollInv m"
  by (simp add: scrollInv_def)

lemma scrollInv_keyTab: "scrollInv m \<Longrightarrow> scrollInv (keyTabCase m)"
  by (simp add: keyTabCase_def Let_def scrollInv_scrollToLink scrollInv_linkIndex)

lemma scrollInv_keyShiftTab: "scrollInv m \<Longrightarrow> scrollInv (keyShiftTabCase m)"
  by (simp add: keyShiftTabCase_def Let_def scrollInv_scrollToLink scrollInv_linkIndex)

lemma scrollInv_keyEnter: "scrollInv m \<Longrightarrow> scrollInv (fst (keyEnterCase m))"
  by (simp add: keyEnterCase_def scrollInv_followLink)

lemma scrollInv_Update: "scrollInv m \<Longrightarrow> isNavMsg x \<Longrightarrow> scrollInv (fst (Update r m x))"
  unfolding isNavMsg_def
  using scrollInv_startScrollTo[of m] scrollInv_tick[of m] scrollInv_keyTab[of m]
    scrollInv_keyShiftTab[of m] scrollInv_keyEnter[of m]
  by (auto simp: tick_def split_def Let_def)


lemma Update_frame:
  "isNavMsg x \<Longrightarrow> totalLines (fst (Update r m x)) = totalLines m
     \<and> Height (view (fst (Update r m x))) = Height (view m)"
  unfolding isNavMsg_def
  by (auto simp: split_def Let_def startScrollTo_frame followLink_frame scrollToLink_frame
      tick_frame[unfolded tick_def] keyTabCase_def keyShiftTabCase_def keyEnterCase_def)

lemma scrollInv_run:
  "scrollInv m \<Longrightarrow> \<forall>x\<in>set xs. isNavMsg x \<Longrightarrow>
   scrollInv (run r m xs) \<and> totalLines (run r m xs) = totalLines m
   \<and> Height (view (run r m xs)) = Height (view m)"
proof (induction xs arbitrary: m)
  case Nil
  then show ?case by simp
next
  case (Cons x xs)
  have x: "isNavMsg x" using Cons.prems(2) by simp
  have i: "scrollInv (fst (Update r m x))" using Cons.prems(1) x by (rule scrollInv_Update)
  have "\<forall>y\<in>set xs. isNavMsg y" using Cons.prems(2) by simp
  from Cons.IH[OF i this] Update_frame[OF x, of r m] show ?case by simp
qed


lemma splitFrom_nonempty: "splitFrom cur sep s \<noteq> []"
  by (induction s arbitrary: cur) auto

lemma Split_length: "1 \<le> length (Split s sep)"
  using splitFrom_nonempty[of "[]" sep s] by (cases "Split s sep") (auto simp: Split_def)

lemma buildIndexes_frame:
  "view (buildIndexes m) = view m \<and> totalLines (buildIndexes m) = totalLines m
   \<and> targetOffset (buildIndexes m) = targetOffset m \<and> animating (buildIndexes m) = animating m"
  by (simp add: buildIndexes_def Let_def)

lemma SetContent_frame:
  "Height (SetContent v s) = Height v \<and> (YOffset v = 0 \<longrightarrow> YOffset (SetContent v s) = 0)"
  using Split_length[of "normalizeLineEndings s" NL]
  by (auto simp: SetContent_def Let_def GotoBottom_def SetYOffset_def)

lemma recalcRendered_top:
  "YOffset (view m) = 0 \<Longrightarrow>
   YOffset (view (recalcRendered r m w h)) = 0
   \<and> targetOffset (recalcRendered r m w h) = targetOffset m"
  by (simp add: recalcRendered_def Let_def buildIndexes_frame SetContent_frame split: sum.splits)

lemma scrollInv_start: "scrollInv (recalcRendered r (initialModel raw thm wrap) w h)"
proof -
  have "YOffset (view (initialModel raw thm wrap)) = 0" "targetOffset (initialModel raw thm wrap) = 0"
    by (simp_all add: initialModel_def)
  with recalcRendered_top[of "initialModel raw thm wrap" r w h]
  show ?thesis by (simp add: scrollInv_def)
qed

text \<open>
  The part of the offset bound that holds. For every line count \<open>totalLines\<close> and height
  \<open>Height\<close>: from a state whose
  offset and animation target lie in \<open>[0, max(0, totalLines - Height)]\<close>, as the state at
  program start does, every sequence of scroll requests, ticks, link-centring jumps and
  link follows leaves \<open>0 \<le> YOffset \<le> max(0, totalLines - Height)\<close>, with the line count
  and the height unchanged; so does each of \<open>startScrollTo\<close> (for any requested target),
  the tick, \<open>scrollToLink\<close> and \<open>followLink\<close> (for any link) alone.
\<close>

theorem offset_bound_invariant:
  assumes "scrollInv m" and "\<forall>x\<in>set xs. isNavMsg x"
  shows "0 \<le> YOffset (view (run r m xs))
       \<and> YOffset (view (run r m xs)) \<le> max 0 (totalLines m - Height (view m))
       \<and> totalLines (run r m xs) = totalLines m
       \<and> Height (view (run r m xs)) = Height (view m)
       \<and> scrollInv (fst (startScrollTo m t))
       \<and> scrollInv (tick m)
       \<and> scrollInv (scrollToLink m)
       \<and> scrollInv (fst (followLink m l))
       \<and> scrollInv (recalcRendered r (initialModel raw thm wrap) w h)"
proof -
  from scrollInv_run[OF assms, of r]
  have "scrollInv (run r m xs)" "totalLines (run r m xs) = totalLines m"
    "Height (view (run r m xs)) = Height (view m)" by blast+
  then have "0 \<le> YOffset (view (run r m xs))
       \<and> YOffset (view (run r m xs)) \<le> max 0 (totalLines m - Height (view m))
       \<and> totalLines (run r m xs) = totalLines m
       \<and> Height (view (run r m xs)) = Height (view m)"
    by (simp add: scrollInv_def)
  then show ?thesis
    using scrollInv_startScrollTo[OF assms(1)] scrollInv_tick[OF assms(1)]
      scrollInv_scrollToLink[OF assms(1)] scrollInv_followLink[OF assms(1)] scrollInv_start
    by blast
qed

text \<open>
  An instance: a page down, two ticks, a jump to the first link, a follow of it, a line
  up and a tick, with 30 lines and a height of 10.
\<close>

theorem offset_bound_invariant_witness:
  "scrollInv (demoModel 0 False 0 demoLinks [] (-1))
   \<and> list_all isNavMsg demoMsgs
   \<and> 0 \<le> YOffset (view (run demoRenderer (demoModel 0 False 0 demoLinks [] (-1)) demoMsgs))
   \<and> YOffset (view (run demoRenderer (demoModel 0 False 0 demoLinks [] (-1)) demoMsgs)) \<le> 20"
proof -
  have i: "scrollInv (demoModel 0 False 0 demoLinks [] (-1))"
    by (simp add: scrollInv_def demoModel_def)
  have n: "\<forall>x\<in>set demoMsgs. isNavMsg x"
    by (simp add: demoMsgs_def isNavMsg_def)
  show ?thesis
    using i n offset_bound_invariant[OF i n, of demoRenderer]
    by (simp add: demoModel_def list_all_iff)
qed

subsection \<open>Link cycling\<close>

lemma smod_nonneg: "0 \<le> a \<Longrightarrow> 0 < b \<Longrightarrow> a smod b = a mod (b::int)"
  by (cases "a = 0") (simp_all add: signed_modulo_int_def)

lemma keyTabCase_links: "links (keyTabCase m) = links m"
  by (simp add: keyTabCase_def Let_def scrollToLink_frame)

lemma keyShiftTabCase_links: "links (keyShiftTabCase m) = links m"
  by (simp add: keyShiftTabCase_def Let_def scrollToLink_frame)

lemma keyTabCase_none:
  "links m \<noteq> [] \<Longrightarrow> linkIndex m = -1 \<Longrightarrow> linkIndex (keyTabCase m) = 0"
  by (simp add: keyTabCase_def Let_def scrollToLink_frame)

lemma keyTabCase_some:
  "links m \<noteq> [] \<Longrightarrow> 0 \<le> linkIndex m \<Longrightarrow>
   linkIndex (keyTabCase m) = (linkIndex m + 1) mod int (length (links m))"
  by (simp add: keyTabCase_def Let_def scrollToLink_frame smod_nonneg)

lemma keyShiftTabCase_none:
  "links m \<noteq> [] \<Longrightarrow> linkIndex m = -1 \<Longrightarrow>
   linkIndex (keyShiftTabCase m) = int (length (links m)) - 1"
  by (simp add: keyShiftTabCase_def Let_def scrollToLink_frame)

lemma keyShiftTabCase_some:
  "links m \<noteq> [] \<Longrightarrow> 0 \<le> linkIndex m \<Longrightarrow>
   linkIndex (keyShiftTabCase m) = (linkIndex m - 1) mod int (length (links m))"
proof -
  assume a: "links m \<noteq> []" "0 \<le> linkIndex m"
  then have "0 \<le> linkIndex m - 1 + int (length (links m))" "0 < int (length (links m))"
    by (cases "links m"; simp)+
  then have "(linkIndex m - 1 + int (length (links m))) smod int (length (links m))
      = (linkIndex m - 1 + int (length (links m))) mod int (length (links m))"
    by (rule smod_nonneg)
  then show ?thesis using a
    by (simp add: keyShiftTabCase_def Let_def scrollToLink_frame)
qed

lemma key_empty: "links m = [] \<Longrightarrow> keyTabCase m = m \<and> keyShiftTabCase m = m"
  by (simp add: keyTabCase_def keyShiftTabCase_def)

lemma tabs_links: "links (tabs k m) = links m"
  by (induction k) (simp_all add: tabs_def keyTabCase_links)

lemma tabs_from:
  "links m \<noteq> [] \<Longrightarrow> 0 \<le> linkIndex m \<Longrightarrow>
   linkIndex (tabs k m) = (linkIndex m + int k) mod int (length (links m))
   \<or> (k = 0 \<and> linkIndex (tabs k m) = linkIndex m)"
proof (induction k)
  case 0
  then show ?case by (simp add: tabs_def)
next
  case (Suc k)
  have t: "tabs (Suc k) m = keyTabCase (tabs k m)" by (simp add: tabs_def)
  have ne: "links (tabs k m) \<noteq> []" using Suc.prems(1) by (simp add: tabs_links)
  have n0: "0 < int (length (links m))" using Suc.prems(1) by simp
  from Suc.IH[OF Suc.prems] have nn: "0 \<le> linkIndex (tabs k m)"
    using Suc.prems(2) n0 by auto
  from Suc.IH[OF Suc.prems]
  have "(linkIndex (tabs k m) + 1) mod int (length (links m))
        = (linkIndex m + int k + 1) mod int (length (links m))"
    by (auto simp: mod_add_left_eq)
  moreover have "linkIndex m + int k + 1 = linkIndex m + int (Suc k)" by simp
  ultimately have "(linkIndex (tabs k m) + 1) mod int (length (links m))
        = (linkIndex m + int (Suc k)) mod int (length (links m))"
    by (simp only:)
  then show ?case
    using keyTabCase_some[OF ne nn] by (simp add: t tabs_links)
qed


lemma tabs_from_none:
  assumes "links m \<noteq> []" "linkIndex m = -1"
  shows "linkIndex (tabs (Suc k) m) = int k mod int (length (links m))"
proof -
  have t: "tabs (Suc k) m = tabs k (keyTabCase m)" by (simp add: tabs_def funpow_swap1)
  have ne: "links (keyTabCase m) \<noteq> []" using assms(1) by (simp add: keyTabCase_links)
  have z: "linkIndex (keyTabCase m) = 0" using assms by (rule keyTabCase_none)
  have n0: "0 < int (length (links m))" using assms(1) by simp
  from tabs_from[OF ne, of k] z show ?thesis
    by (auto simp: t keyTabCase_links)
qed

text \<open>
  Claim C6, as amended. With no link, Tab and Shift-Tab change nothing. With \<open>N > 0\<close> links
  and none selected, Tab selects index 0 and Shift-Tab index \<open>N - 1\<close>; from a selected
  index they move to the next and the previous index modulo \<open>N\<close>. \<open>N\<close> presses of Tab from
  the none-selected state end on index \<open>N - 1\<close> and one more press returns to index 0;
  \<open>N\<close> presses from a selected index return to that index.
\<close>

theorem link_cycling:
  "(links m = [] \<longrightarrow> keyTabCase m = m \<and> keyShiftTabCase m = m)
   \<and> (links m \<noteq> [] \<and> linkIndex m = -1 \<longrightarrow>
        linkIndex (keyTabCase m) = 0
        \<and> linkIndex (keyShiftTabCase m) = int (length (links m)) - 1
        \<and> linkIndex (tabs (length (links m)) m) = int (length (links m)) - 1
        \<and> linkIndex (tabs (Suc (length (links m))) m) = 0)
   \<and> (links m \<noteq> [] \<and> 0 \<le> linkIndex m \<and> linkIndex m < int (length (links m)) \<longrightarrow>
        linkIndex (keyTabCase m) = (linkIndex m + 1) mod int (length (links m))
        \<and> linkIndex (keyShiftTabCase m) = (linkIndex m - 1) mod int (length (links m))
        \<and> linkIndex (tabs (length (links m)) m) = linkIndex m)"
proof -
  have 1: "links m = [] \<longrightarrow> keyTabCase m = m \<and> keyShiftTabCase m = m"
    using key_empty by blast
  have 2: "links m \<noteq> [] \<and> linkIndex m = -1 \<longrightarrow>
        linkIndex (keyTabCase m) = 0
        \<and> linkIndex (keyShiftTabCase m) = int (length (links m)) - 1
        \<and> linkIndex (tabs (length (links m)) m) = int (length (links m)) - 1
        \<and> linkIndex (tabs (Suc (length (links m))) m) = 0"
  proof (intro impI, elim conjE)
    assume a: "links m \<noteq> []" "linkIndex m = -1"
    then obtain k where k: "length (links m) = Suc k" by (cases "links m") auto
    have "linkIndex (tabs (Suc k) m) = int k"
      using tabs_from_none[OF a, of k] k by simp
    moreover have "linkIndex (tabs (Suc (Suc k)) m) = 0"
      using tabs_from_none[OF a, of "Suc k"] k by simp
    ultimately show "linkIndex (keyTabCase m) = 0
        \<and> linkIndex (keyShiftTabCase m) = int (length (links m)) - 1
        \<and> linkIndex (tabs (length (links m)) m) = int (length (links m)) - 1
        \<and> linkIndex (tabs (Suc (length (links m))) m) = 0"
      using keyTabCase_none[OF a] keyShiftTabCase_none[OF a] k by simp
  qed
  have 3: "links m \<noteq> [] \<and> 0 \<le> linkIndex m \<and> linkIndex m < int (length (links m)) \<longrightarrow>
        linkIndex (keyTabCase m) = (linkIndex m + 1) mod int (length (links m))
        \<and> linkIndex (keyShiftTabCase m) = (linkIndex m - 1) mod int (length (links m))
        \<and> linkIndex (tabs (length (links m)) m) = linkIndex m"
  proof (intro impI, elim conjE)
    assume a: "links m \<noteq> []" "0 \<le> linkIndex m" "linkIndex m < int (length (links m))"
    have "linkIndex (tabs (length (links m)) m) = linkIndex m"
      using tabs_from[OF a(1,2), of "length (links m)"] a by auto
    then show "linkIndex (keyTabCase m) = (linkIndex m + 1) mod int (length (links m))
        \<and> linkIndex (keyShiftTabCase m) = (linkIndex m - 1) mod int (length (links m))
        \<and> linkIndex (tabs (length (links m)) m) = linkIndex m"
      using keyTabCase_some[OF a(1,2)] keyShiftTabCase_some[OF a(1,2)] by simp
  qed
  from 1 2 3 show ?thesis by blast
qed

text \<open>
  Witness for C6: two links, from none selected, from the last index, and the empty list.
\<close>

theorem link_cycling_witness:
  "links (demoModel 0 False 0 demoLinks [] (-1)) \<noteq> []
   \<and> linkIndex (demoModel 0 False 0 demoLinks [] (-1)) = -1
   \<and> linkIndex (keyTabCase (demoModel 0 False 0 demoLinks [] (-1))) = 0
   \<and> linkIndex (keyShiftTabCase (demoModel 0 False 0 demoLinks [] (-1))) = 1
   \<and> linkIndex (tabs 2 (demoModel 0 False 0 demoLinks [] (-1))) = 1
   \<and> linkIndex (tabs 3 (demoModel 0 False 0 demoLinks [] (-1))) = 0
   \<and> links (demoModel 0 False 0 demoLinks [] 1) \<noteq> []
   \<and> linkIndex (keyTabCase (demoModel 0 False 0 demoLinks [] 1)) = 0
   \<and> linkIndex (keyShiftTabCase (demoModel 0 False 0 demoLinks [] 1)) = 0
   \<and> links (demoModel 0 False 0 [] [] (-1)) = []
   \<and> keyTabCase (demoModel 0 False 0 [] [] (-1)) = demoModel 0 False 0 [] [] (-1)"
  using link_cycling[of "demoModel 0 False 0 demoLinks [] (-1)"]
    link_cycling[of "demoModel 0 False 0 demoLinks [] 1"]
    link_cycling[of "demoModel 0 False 0 [] [] (-1)"]
  by (simp add: demoModel_def demoLinks_def numeral_2_eq_2 numeral_3_eq_3)

text \<open>
  Counterexample to C6 as stated: with \<open>N = 2\<close> links, two presses of Tab from the
  none-selected state end on index 1, not on index 0.
\<close>

theorem link_cycling_counterexample:
  "length (links (demoModel 0 False 0 demoLinks [] (-1))) = 2
   \<and> linkIndex (demoModel 0 False 0 demoLinks [] (-1)) = -1
   \<and> linkIndex (tabs 2 (demoModel 0 False 0 demoLinks [] (-1))) \<noteq> 0"
  by (simp add: tabs_def numeral_2_eq_2 keyTabCase_def demoModel_def demoLinks_def Let_def
      scrollToLink_frame signed_modulo_int_def)


subsection \<open>The selected link index\<close>

lemma linkOK_buildIndexes: "linkOK m \<Longrightarrow> linkOK (buildIndexes m)"
  by (auto simp: linkOK_def buildIndexes_def Let_def)

lemma buildIndexes_linkIndex:
  "(links (buildIndexes m) = [] \<longrightarrow> linkIndex (buildIndexes m) = -1)
   \<and> (links (buildIndexes m) \<noteq> [] \<and> int (length (links (buildIndexes m))) \<le> linkIndex m \<longrightarrow>
        linkIndex (buildIndexes m) = int (length (links (buildIndexes m))) - 1)
   \<and> (links (buildIndexes m) \<noteq> [] \<and> linkIndex m < int (length (links (buildIndexes m))) \<longrightarrow>
        linkIndex (buildIndexes m) = linkIndex m)"
  by (auto simp: buildIndexes_def Let_def)

lemma linkOK_recalcRendered: "linkOK m \<Longrightarrow> linkOK (recalcRendered r m w h)"
proof (cases "r (rawMarkdown m) (if wrapWidth m \<le> 0 then w else wrapWidth m) (theme m)")
  case (Inl e)
  assume "linkOK m"
  with Inl show ?thesis by (simp add: recalcRendered_def Let_def linkOK_def)
next
  case (Inr out)
  assume "linkOK m"
  then have "linkOK (m\<lparr>rendered := out, renderedLines := a, totalLines := b, view := c\<rparr>)" for a b c
    by (simp add: linkOK_def)
  then show ?thesis using Inr
    by (simp add: recalcRendered_def Let_def linkOK_buildIndexes)
qed

lemma tick_links: "links (tick m) = links m \<and> linkIndex (tick m) = linkIndex m"
  by (simp add: tick_def scrollTickCase_def Let_def)

lemma linkOK_keyTab: "linkOK m \<Longrightarrow> linkOK (keyTabCase m)"
proof (cases "links m = []")
  case True
  assume "linkOK m"
  with True show ?thesis by (simp add: key_empty)
next
  case False
  assume ok: "linkOK m"
  have n0: "0 < int (length (links m))" using False by simp
  show ?thesis
  proof (cases "linkIndex m = -1")
    case True
    then show ?thesis using keyTabCase_none[OF False True] n0
      by (simp add: linkOK_def keyTabCase_links)
  next
    case nm: False
    with ok have nn: "0 \<le> linkIndex m" by (simp add: linkOK_def)
    show ?thesis using keyTabCase_some[OF False nn] n0
      by (simp add: linkOK_def keyTabCase_links)
  qed
qed

lemma linkOK_keyShiftTab: "linkOK m \<Longrightarrow> linkOK (keyShiftTabCase m)"
proof (cases "links m = []")
  case True
  assume "linkOK m"
  with True show ?thesis by (simp add: key_empty)
next
  case False
  assume ok: "linkOK m"
  have n0: "0 < int (length (links m))" using False by simp
  show ?thesis
  proof (cases "linkIndex m = -1")
    case True
    then show ?thesis using keyShiftTabCase_none[OF False True] n0
      by (simp add: linkOK_def keyShiftTabCase_links)
  next
    case nm: False
    with ok have nn: "0 \<le> linkIndex m" by (simp add: linkOK_def)
    show ?thesis using keyShiftTabCase_some[OF False nn] n0
      by (simp add: linkOK_def keyShiftTabCase_links)
  qed
qed

lemma linkOK_frame:
  "links m' = links m \<Longrightarrow> linkIndex m' = linkIndex m \<Longrightarrow> linkOK m \<Longrightarrow> linkOK m'"
  by (simp add: linkOK_def)

lemma linkOK_Update: "linkOK m \<Longrightarrow> linkOK (fst (Update r m x))"
proof (cases x)
  case (WindowSizeMsg w h)
  assume "linkOK m"
  then show ?thesis using WindowSizeMsg by (simp add: linkOK_recalcRendered)
next
  case ScrollTick
  assume "linkOK m"
  then show ?thesis using ScrollTick tick_links[of m]
    by (simp add: split_def Let_def linkOK_def tick_def)
next
  case (KeyMsg k)
  assume ok: "linkOK m"
  have a: "linkOK (fst (startScrollTo m t))" for t
    using ok startScrollTo_frame[of m t] by (simp add: linkOK_def)
  have b: "linkOK (fst (keyEnterCase m))"
    using ok followLink_frame[of m] by (simp add: linkOK_def keyEnterCase_def)
  have c: "linkOK (m\<lparr>view := v\<rparr>)" for v using ok by (simp add: linkOK_def)
  show ?thesis
    using KeyMsg ok a b c linkOK_keyTab[OF ok] linkOK_keyShiftTab[OF ok]
    by (cases k) (simp_all add: split_def Let_def)
qed

text \<open>
  Claim C10. In every reachable state \<open>linkIndex\<close> is \<open>-1\<close> or lies in
  \<open>[0, len(links) - 1]\<close>, so the index that Enter uses is in bounds; and a rebuild of the
  indexes sets \<open>linkIndex\<close> to \<open>-1\<close> when the new list is empty and to \<open>len(links) - 1\<close>
  when it is beyond the new list.
\<close>

theorem linkIndex_invariant:
  "(reachable r m \<longrightarrow>
      (linkIndex m = -1 \<or> (0 \<le> linkIndex m \<and> linkIndex m < int (length (links m))))
      \<and> (0 \<le> linkIndex m \<longrightarrow> nat (linkIndex m) < length (links m)))
   \<and> (links (buildIndexes m) = [] \<longrightarrow> linkIndex (buildIndexes m) = -1)
   \<and> (links (buildIndexes m) \<noteq> [] \<and> int (length (links (buildIndexes m))) \<le> linkIndex m \<longrightarrow>
        linkIndex (buildIndexes m) = int (length (links (buildIndexes m))) - 1)"
proof -
  have "reachable r m \<Longrightarrow> linkOK m"
  proof (induction rule: reachable.induct)
    case (start raw sty wrap)
    show ?case by (simp add: linkOK_def initialModel_def)
  next
    case (step m x)
    then show ?case by (simp add: linkOK_Update)
  qed
  then have "reachable r m \<longrightarrow>
      (linkIndex m = -1 \<or> (0 \<le> linkIndex m \<and> linkIndex m < int (length (links m))))
      \<and> (0 \<le> linkIndex m \<longrightarrow> nat (linkIndex m) < length (links m))"
    by (auto simp: linkOK_def)
  then show ?thesis using buildIndexes_linkIndex[of m] by blast
qed


lemma docModel_links:
  "links (buildIndexes (docModel 5)) =
     [\<lparr>link_text = ''here'', link_target = ''#title'', link_renderedLine = 3\<rparr>,
      \<lparr>link_text = ''site'', link_target = ''https://example.org'', link_renderedLine = 3\<rparr>]"
  by code_simp

text \<open>
  Witness for C10: the state after the first render and one Tab is reachable; a rebuild
  with index 5 and two links gives index 1, and a rebuild of an empty document gives \<open>-1\<close>.
\<close>

theorem linkIndex_invariant_witness:
  "reachable demoRenderer demoState
   \<and> (linkIndex demoState = -1
        \<or> (0 \<le> linkIndex demoState \<and> linkIndex demoState < int (length (links demoState))))
   \<and> links (buildIndexes (docModel 5)) \<noteq> []
   \<and> int (length (links (buildIndexes (docModel 5)))) \<le> linkIndex (docModel 5)
   \<and> linkIndex (buildIndexes (docModel 5)) = 1
   \<and> links (buildIndexes (initialModel [] ''auto'' 0)) = []
   \<and> linkIndex (buildIndexes (initialModel [] ''auto'' 0)) = -1"
proof -
  have r: "reachable demoRenderer demoState"
    unfolding demoState_def by (intro reachable.step reachable.start)
  have l: "links (buildIndexes (docModel 5)) \<noteq> []"
    "int (length (links (buildIndexes (docModel 5)))) \<le> linkIndex (docModel 5)"
    "int (length (links (buildIndexes (docModel 5)))) - 1 = 1"
    by (simp_all add: docModel_links) (simp add: docModel_def)
  have e: "links (buildIndexes (initialModel [] ''auto'' 0)) = []"
    by code_simp
  show ?thesis
    using r l e linkIndex_invariant[of demoRenderer demoState]
      linkIndex_invariant[of _ "docModel 5"] linkIndex_invariant[of _ "initialModel [] ''auto'' 0"]
    by simp
qed

subsection \<open>Following a link\<close>

lemma followHeadings_find:
  "followHeadings anc hs = find (\<lambda>h. anchorMatches h anc \<and> 0 \<le> heading_renderedLine h) hs"
  by (induction hs) auto

lemma followHeadings_none:
  "\<forall>h\<in>set hs. \<not> anchorMatches h anc \<Longrightarrow> followHeadings anc hs = None"
  by (induction hs) auto

lemma slug_intro: "slugify ''INTRO'' = ''intro''" "slugify ''Introduction'' = ''introduction''"
  "slugify ''introduction'' = ''introduction''" "slugify ''intro'' = ''intro''"
  by code_simp+

text \<open>
  Claim C3, as amended. For a link whose trimmed target begins with \<open>#\<close>, the headings
  are searched in order for the first heading that has a resolved line and whose anchor
  equals the text after the \<open>#\<close>, or whose slugified text equals it, or whose anchor equals
  the slug of it; \<open>followLink\<close> jumps to the line of that heading, clamped into view. A
  heading with anchor \<open>"intro"\<close>, text \<open>"Introduction"\<close> and a resolved line is found by the
  targets \<open>#intro\<close>, \<open>#introduction\<close> and \<open>#INTRO\<close>, and is not matched by
  \<open>#Introduction\<close>. A heading whose anchor is the slug of its text \<open>"Introduction"\<close>, as
  \<open>buildIndexes\<close> makes it, is matched by \<open>#Introduction\<close> and \<open>#introduction\<close>.
\<close>

theorem anchor_resolution:
  "followHeadings anc hs = find (\<lambda>h. anchorMatches h anc \<and> 0 \<le> heading_renderedLine h) hs
   \<and> anchorMatches h anc
       = (heading_anchor h = anc \<or> slugify (heading_text h) = anc \<or> slugify anc = heading_anchor h)
   \<and> (HasPrefix (TrimSpace (link_target l)) ''#''
        \<and> followHeadings (TrimPrefix (TrimSpace (link_target l)) ''#'') (headings m) = Some h \<longrightarrow>
        followLink m l
          = (m\<lparr>view := SetYOffset (view m)
                 (clamp (heading_renderedLine h) 0 (max 0 (totalLines m - Height (view m))))\<rparr>,
             None))
   \<and> (heading_anchor h = ''intro'' \<and> heading_text h = ''Introduction''
        \<and> 0 \<le> heading_renderedLine h \<longrightarrow>
        followHeadings ''intro'' (h # hs) = Some h
        \<and> followHeadings ''introduction'' (h # hs) = Some h
        \<and> followHeadings ''INTRO'' (h # hs) = Some h
        \<and> \<not> anchorMatches h ''Introduction'')
   \<and> (heading_text h = ''Introduction'' \<and> heading_anchor h = slugify (heading_text h) \<longrightarrow>
        anchorMatches h ''Introduction'' \<and> anchorMatches h ''introduction'')"
proof -
  have 5: "heading_text h = ''Introduction'' \<and> heading_anchor h = slugify (heading_text h) \<longrightarrow>
        anchorMatches h ''Introduction'' \<and> anchorMatches h ''introduction''"
    by (simp add: anchorMatches_def slug_intro)
  have 3: "HasPrefix (TrimSpace (link_target l)) ''#''
        \<and> followHeadings (TrimPrefix (TrimSpace (link_target l)) ''#'') (headings m) = Some h \<longrightarrow>
        followLink m l
          = (m\<lparr>view := SetYOffset (view m)
                 (clamp (heading_renderedLine h) 0 (max 0 (totalLines m - Height (view m))))\<rparr>,
             None)"
    by (auto simp: followLink_def Let_def max_go_eq HasPrefix_def)
  have 4: "heading_anchor h = ''intro'' \<and> heading_text h = ''Introduction''
        \<and> 0 \<le> heading_renderedLine h \<longrightarrow>
        followHeadings ''intro'' (h # hs) = Some h
        \<and> followHeadings ''introduction'' (h # hs) = Some h
        \<and> followHeadings ''INTRO'' (h # hs) = Some h
        \<and> \<not> anchorMatches h ''Introduction''"
    by (simp add: anchorMatches_def slug_intro)
  show ?thesis using followHeadings_find 3 4 5 by (simp add: anchorMatches_def)
qed

text \<open>
  Witness for C3: the target \<open>" #INTRO "\<close> finds the heading with anchor \<open>"intro"\<close> behind
  a heading that does not match, and the viewport jumps to its line 7.
\<close>

theorem anchor_resolution_witness:
  "HasPrefix (TrimSpace (link_target (anchorLink '' #INTRO '' 20))) ''#''
   \<and> followHeadings (TrimPrefix (TrimSpace (link_target (anchorLink '' #INTRO '' 20))) ''#'')
        (headings (demoModel 0 False 0 [] [staleHeading, introHeading] (-1))) = Some introHeading
   \<and> YOffset (view (fst (followLink (demoModel 0 False 0 [] [staleHeading, introHeading] (-1))
                            (anchorLink '' #INTRO '' 20)))) = 7
   \<and> followHeadings ''introduction'' [introHeading] = Some introHeading"
proof -
  have t: "TrimSpace '' #INTRO '' = ''#INTRO''" by code_simp
  have p: "HasPrefix (TrimSpace (link_target (anchorLink '' #INTRO '' 20))) ''#''"
    by (simp add: anchorLink_def t HasPrefix_def)
  have f: "followHeadings (TrimPrefix (TrimSpace (link_target (anchorLink '' #INTRO '' 20))) ''#'')
        (headings (demoModel 0 False 0 [] [staleHeading, introHeading] (-1))) = Some introHeading"
    by (simp add: anchorLink_def t TrimPrefix_def HasPrefix_def demoModel_def anchorMatches_def
        staleHeading_def introHeading_def slug_intro)
  have i: "heading_anchor introHeading = ''intro'' \<and> heading_text introHeading = ''Introduction''
        \<and> 0 \<le> heading_renderedLine introHeading"
    by (simp add: introHeading_def)
  show ?thesis
    using p f i
      anchor_resolution[of _ _ introHeading "anchorLink '' #INTRO '' 20"
        "demoModel 0 False 0 [] [staleHeading, introHeading] (-1)"]
      anchor_resolution[of _ "[]" introHeading]
    by (simp add: demoModel_def SetYOffset_def maxYOffset_def clamp_def introHeading_def)
qed

text \<open>
  Counterexample to C3 as stated: with the heading of anchor \<open>"intro"\<close> and text
  \<open>"Introduction"\<close> at line 7, the target \<open>#Introduction\<close> finds no heading and the offset
  stays 0; and a first matching heading whose line is unresolved does not win, the search
  goes on to the next matching heading.
\<close>

theorem anchor_resolution_counterexample:
  "heading_anchor introHeading = ''intro'' \<and> heading_text introHeading = ''Introduction''
   \<and> followHeadings (TrimPrefix (TrimSpace ''#Introduction'') ''#'') [introHeading] = None
   \<and> YOffset (view (fst (followLink (demoModel 0 False 0 [] [introHeading] (-1))
                            (anchorLink ''#Introduction'' (-1))))) = 0
   \<and> anchorMatches staleHeading ''intro-one''
   \<and> followHeadings ''intro-one'' [staleHeading, freshHeading] = Some freshHeading"
proof -
  have t: "TrimSpace ''#Introduction'' = ''#Introduction''" by code_simp
  have s: "slugify ''Intro *one*'' = ''intro-one''" "slugify ''Intro one'' = ''intro-one''"
    "slugify ''intro-one'' = ''intro-one''"
    by code_simp+
  show ?thesis
    by (simp add: t s slug_intro introHeading_def staleHeading_def freshHeading_def anchorLink_def
        anchorMatches_def TrimPrefix_def HasPrefix_def followLink_def demoModel_def)
qed

text \<open>
  Claim C7. When the line of the selected link is unresolved (negative), \<open>scrollToLink\<close>
  leaves the model, and so the offset, unchanged. When the target of a followed link
  begins with \<open>#\<close>, no heading matches and the link's own line is unresolved,
  \<open>followLink\<close> leaves the model unchanged and opens nothing, and Enter on such a
  selected link returns the model unchanged with no command. Every function of the
  model is total: there is no error result.
\<close>

theorem unresolved_is_quiet:
  "(0 \<le> linkIndex m \<and> linkIndex m < int (length (links m))
      \<and> link_renderedLine (links m ! nat (linkIndex m)) < 0 \<longrightarrow>
      scrollToLink m = m)
   \<and> (HasPrefix (TrimSpace (link_target l)) ''#''
      \<and> (\<forall>h\<in>set (headings m). \<not> anchorMatches h (TrimPrefix (TrimSpace (link_target l)) ''#''))
      \<and> link_renderedLine l < 0 \<longrightarrow>
      followLink m l = (m, None))
   \<and> (0 \<le> linkIndex m \<and> linkIndex m < int (length (links m))
      \<and> HasPrefix (TrimSpace (link_target (links m ! nat (linkIndex m)))) ''#''
      \<and> (\<forall>h\<in>set (headings m).
            \<not> anchorMatches h (TrimPrefix (TrimSpace (link_target (links m ! nat (linkIndex m)))) ''#''))
      \<and> link_renderedLine (links m ! nat (linkIndex m)) < 0 \<longrightarrow>
      Update r m (KeyMsg KeyEnter) = (m, NoCmd, None))"
proof -
  have 2: "HasPrefix (TrimSpace (link_target l)) ''#''
      \<and> (\<forall>h\<in>set (headings m). \<not> anchorMatches h (TrimPrefix (TrimSpace (link_target l)) ''#''))
      \<and> link_renderedLine l < 0 \<longrightarrow>
      followLink m l = (m, None)" for l
    using followHeadings_none[of "headings m" "TrimPrefix (TrimSpace (link_target l)) ''#''"]
    by (auto simp: followLink_def Let_def)
  have 1: "0 \<le> linkIndex m \<and> linkIndex m < int (length (links m))
      \<and> link_renderedLine (links m ! nat (linkIndex m)) < 0 \<longrightarrow>
      scrollToLink m = m"
    by (simp add: scrollToLink_def)
  show ?thesis using 1 2[of l] 2[of "links m ! nat (linkIndex m)"]
    by (simp add: keyEnterCase_def)
qed

text \<open>
  Witness for C7: the second example link has an unresolved line, and the target
  \<open>#nowhere\<close> matches no heading.
\<close>

theorem unresolved_is_quiet_witness:
  "link_renderedLine (links (demoModel 3 False 3 demoLinks [introHeading] 1)
       ! nat (linkIndex (demoModel 3 False 3 demoLinks [introHeading] 1))) < 0
   \<and> scrollToLink (demoModel 3 False 3 demoLinks [introHeading] 1)
       = demoModel 3 False 3 demoLinks [introHeading] 1
   \<and> list_all
        (\<lambda>h. \<not> anchorMatches h (TrimPrefix (TrimSpace (link_target (anchorLink ''#nowhere'' (-1)))) ''#''))
        (headings (demoModel 3 False 3 demoLinks [introHeading] 1))
   \<and> followLink (demoModel 3 False 3 demoLinks [introHeading] 1) (anchorLink ''#nowhere'' (-1))
       = (demoModel 3 False 3 demoLinks [introHeading] 1, None)"
proof -
  have t: "TrimSpace ''#nowhere'' = ''#nowhere''" by code_simp
  have s: "slugify ''nowhere'' = ''nowhere''" by code_simp
  have a: "link_renderedLine (links (demoModel 3 False 3 demoLinks [introHeading] 1)
       ! nat (linkIndex (demoModel 3 False 3 demoLinks [introHeading] 1))) < 0"
    "0 \<le> linkIndex (demoModel 3 False 3 demoLinks [introHeading] 1)"
    "linkIndex (demoModel 3 False 3 demoLinks [introHeading] 1)
       < int (length (links (demoModel 3 False 3 demoLinks [introHeading] 1)))"
    by (simp_all add: demoModel_def demoLinks_def)
  have b: "\<forall>h\<in>set (headings (demoModel 3 False 3 demoLinks [introHeading] 1)).
         \<not> anchorMatches h (TrimPrefix (TrimSpace (link_target (anchorLink ''#nowhere'' (-1)))) ''#'')"
    by (simp add: demoModel_def anchorLink_def t s slug_intro TrimPrefix_def HasPrefix_def
        anchorMatches_def introHeading_def)
  have c: "HasPrefix (TrimSpace (link_target (anchorLink ''#nowhere'' (-1)))) ''#''"
    "link_renderedLine (anchorLink ''#nowhere'' (-1)) < 0"
    by (simp_all add: anchorLink_def t HasPrefix_def)
  show ?thesis
    using a b c
      unresolved_is_quiet[of "demoModel 3 False 3 demoLinks [introHeading] 1"
        "anchorLink ''#nowhere'' (-1)"]
    by (simp add: list_all_iff)
qed

subsection \<open>The position resolver\<close>

lemma HasPrefix_Nil: "HasPrefix [] n = (n = [])"
  by (auto simp: HasPrefix_def)

lemma Index_found:
  "HasPrefix (drop p hay) n \<Longrightarrow> p \<le> length hay \<Longrightarrow> \<forall>i<p. \<not> HasPrefix (drop i hay) n \<Longrightarrow>
   Index hay n = int p"
proof (induction hay arbitrary: p)
  case Nil
  then show ?case by (simp add: HasPrefix_Nil)
next
  case (Cons c cs)
  show ?case
  proof (cases p)
    case 0
    then show ?thesis using Cons.prems(1) by simp
  next
    case (Suc q)
    have no: "\<not> HasPrefix (c # cs) n" using Cons.prems(3) Suc by force
    have "\<forall>i<q. \<not> HasPrefix (drop i cs) n"
    proof (intro allI impI)
      fix i assume "i < q"
      then have "Suc i < p" using Suc by simp
      with Cons.prems(3) have "\<not> HasPrefix (drop (Suc i) (c # cs)) n" by blast
      then show "\<not> HasPrefix (drop i cs) n" by simp
    qed
    moreover have "HasPrefix (drop q cs) n" "q \<le> length cs" using Cons.prems(1,2) Suc by simp_all
    ultimately have "Index cs n = int q" using Cons.IH by blast
    then show ?thesis using no Suc by (simp add: Let_def)
  qed
qed

lemma Index_missing:
  "\<forall>i\<le>length hay. \<not> HasPrefix (drop i hay) n \<Longrightarrow> Index hay n = -1"
proof (induction hay)
  case Nil
  then show ?case by (simp add: HasPrefix_Nil)
next
  case (Cons c cs)
  have no: "\<not> HasPrefix (c # cs) n" using Cons.prems by force
  have "\<forall>i\<le>length cs. \<not> HasPrefix (drop i cs) n"
  proof (intro allI impI)
    fix i assume "i \<le> length cs"
    then have "Suc i \<le> length (c # cs)" by simp
    with Cons.prems have "\<not> HasPrefix (drop (Suc i) (c # cs)) n" by blast
    then show "\<not> HasPrefix (drop i cs) n" by simp
  qed
  then have "Index cs n = -1" using Cons.IH by blast
  then show ?case using no by (simp add: Let_def)
qed

lemma headingsOf_lines:
  "\<forall>h\<in>set (headingsOf raw plain ms).
     heading_renderedLine h = indexLineOf plain (heading_text h)"
  by (induction raw plain ms rule: headingsOf.induct) (auto simp: Let_def)

lemma linksOf_lines:
  "\<forall>l\<in>set (linksOf raw plain ms). link_renderedLine l = indexLineOf plain (needleOf l)"
  by (induction raw plain ms rule: linksOf.induct) (auto simp: Let_def needleOf_def)

lemma buildIndexes_lists:
  "headings (buildIndexes m)
     = headingsOf (rawMarkdown m) (stripANSI (rendered m)) (FindAll reHeading (rawMarkdown m))
   \<and> links (buildIndexes m)
     = linksOf (rawMarkdown m) (stripANSI (rendered m)) (FindAll reLink (rawMarkdown m))"
  by (simp add: buildIndexes_def Let_def)

lemma ansiRE_needs_ESC: "ESC \<noteq> c \<Longrightarrow> matchAlts ansiRE prev (c # cs) pos = None"
  by (simp add: ansiRE_def Lit_def)

lemma removeAllFrom_no_ESC:
  "ESC \<notin> set s \<Longrightarrow> removeAllFrom ansiRE prev s pos 0 = s"
  by (induction s arbitrary: prev pos) (simp_all add: ansiRE_needs_ESC)

lemma stripANSI_no_ESC: "ESC \<notin> set s \<Longrightarrow> stripANSI s = s"
  by (simp add: stripANSI_def removeAllFrom_no_ESC)

lemma styled_plain:
  "stripANSI styledRendered = [NL] @ ''  My Title'' @ [NL, NL] @ ''  See site.'' @ [NL]"
  by code_simp

lemma styledModel_headings:
  "headings (buildIndexes styledModel) =
     [\<lparr>heading_text = ''My Title'', heading_anchor = ''my-title'', heading_renderedLine = 1\<rparr>]"
  by code_simp

lemma styledModel_links:
  "links (buildIndexes styledModel) =
     [\<lparr>link_text = ''site'', link_target = ''https://example.org'', link_renderedLine = -1\<rparr>]"
  by code_simp

lemma styled_raw_lines:
  "indexLineOf styledRendered ''My Title'' = -1"
  "indexLineOf styledRendered ''https://example.org'' = 3"
  by code_simp+

text \<open>
  Claim C5. After \<open>buildIndexes\<close>, the line of each heading is \<open>indexLineOf\<close> of the
  ANSI-stripped rendered text and the heading's text, and the line of each link is
  \<open>indexLineOf\<close> of that text and the link's text when its target starts with \<open>#\<close>, its
  target otherwise. For a needle that is not empty and whose first occurrence starts at byte
  \<open>p\<close>, \<open>indexLineOf\<close> is the number of line feeds before \<open>p\<close>; for an empty needle, or one
  that occurs nowhere, it is \<open>-1\<close>. Stripping leaves a text without escape byte as it is,
  and takes the colour sequences and the hyperlink sequences out of the styled example,
  with the address that a hyperlink sequence carries.
\<close>

theorem position_resolver:
  "(\<forall>h\<in>set (headings (buildIndexes m)).
      heading_renderedLine h = indexLineOf (stripANSI (rendered m)) (heading_text h))
   \<and> (\<forall>l\<in>set (links (buildIndexes m)).
      link_renderedLine l
        = indexLineOf (stripANSI (rendered m))
            (if HasPrefix (link_target l) ''#'' then link_text l else link_target l))
   \<and> (needle \<noteq> [] \<and> p \<le> length hay \<and> HasPrefix (drop p hay) needle
        \<and> (\<forall>i<p. \<not> HasPrefix (drop i hay) needle) \<longrightarrow>
        indexLineOf hay needle = Count (take p hay) NL)
   \<and> (needle = [] \<or> (\<forall>i\<le>length hay. \<not> HasPrefix (drop i hay) needle) \<longrightarrow>
        indexLineOf hay needle = -1)
   \<and> (ESC \<notin> set hay \<longrightarrow> stripANSI hay = hay)
   \<and> stripANSI styledRendered = [NL] @ ''  My Title'' @ [NL, NL] @ ''  See site.'' @ [NL]"
proof -
  have 5: "ESC \<notin> set hay \<longrightarrow> stripANSI hay = hay"
    using stripANSI_no_ESC by blast
  have 1: "\<forall>h\<in>set (headings (buildIndexes m)).
      heading_renderedLine h = indexLineOf (stripANSI (rendered m)) (heading_text h)"
    using headingsOf_lines by (simp add: buildIndexes_lists)
  have 2: "\<forall>l\<in>set (links (buildIndexes m)).
      link_renderedLine l
        = indexLineOf (stripANSI (rendered m))
            (if HasPrefix (link_target l) ''#'' then link_text l else link_target l)"
    using linksOf_lines[of "rawMarkdown m" "stripANSI (rendered m)"]
    by (simp add: buildIndexes_lists needleOf_def)
  have 3: "needle \<noteq> [] \<and> p \<le> length hay \<and> HasPrefix (drop p hay) needle
        \<and> (\<forall>i<p. \<not> HasPrefix (drop i hay) needle) \<longrightarrow>
        indexLineOf hay needle = Count (take p hay) NL"
    using Index_found[of p hay needle] by (auto simp: indexLineOf_def Let_def)
  have 4: "needle = [] \<or> (\<forall>i\<le>length hay. \<not> HasPrefix (drop i hay) needle) \<longrightarrow>
        indexLineOf hay needle = -1"
    using Index_missing[of hay needle] by (auto simp: indexLineOf_def Let_def)
  from 1 2 3 4 5 styled_plain show ?thesis by blast
qed

lemma docModel_headings:
  "headings (buildIndexes (docModel 0)) =
     [\<lparr>heading_text = ''Title'', heading_anchor = ''title'', heading_renderedLine = 1\<rparr>]"
  by code_simp

lemma docModel_links0:
  "links (buildIndexes (docModel 0)) =
     [\<lparr>link_text = ''here'', link_target = ''#title'', link_renderedLine = 3\<rparr>,
      \<lparr>link_text = ''site'', link_target = ''https://example.org'', link_renderedLine = 3\<rparr>]"
  by code_simp

lemma docModel_plain:
  "stripANSI (rendered (docModel 0))
     = [NL] @ ''  Title'' @ [NL, NL] @ ''  See here and site https://example.org.'' @ [NL, NL]"
  by code_simp

text \<open>
  Witness for C5: the heading and the two links of the example document, a needle found
  on the second line behind no earlier occurrence, a needle not found and an empty needle;
  and the styled example, where the heading's text is found on line 1 only once the colour
  sequences between its words are stripped, and the link's address, which the styled text
  holds inside a hyperlink sequence on line 3, is not found in the stripped text.
\<close>

theorem position_resolver_witness:
  "\<lparr>link_text = ''here'', link_target = ''#title'', link_renderedLine = 3\<rparr>
      \<in> set (links (buildIndexes (docModel 0)))
   \<and> indexLineOf (stripANSI (rendered (docModel 0))) ''here'' = 3
   \<and> \<lparr>link_text = ''site'', link_target = ''https://example.org'', link_renderedLine = 3\<rparr>
      \<in> set (links (buildIndexes (docModel 0)))
   \<and> indexLineOf (stripANSI (rendered (docModel 0))) ''https://example.org'' = 3
   \<and> \<lparr>heading_text = ''Title'', heading_anchor = ''title'', heading_renderedLine = 1\<rparr>
      \<in> set (headings (buildIndexes (docModel 0)))
   \<and> indexLineOf (stripANSI (rendered (docModel 0))) ''Title'' = 1
   \<and> HasPrefix (drop 4 (''ab'' @ [NL] @ '' cd cd'')) ''cd''
   \<and> list_all (\<lambda>i. \<not> HasPrefix (drop i (''ab'' @ [NL] @ '' cd cd'')) ''cd'') [0, 1, 2, 3]
   \<and> indexLineOf (''ab'' @ [NL] @ '' cd cd'') ''cd'' = 1
   \<and> list_all (\<lambda>i. \<not> HasPrefix (drop i ''abc'') ''cd'') [0, 1, 2, 3]
   \<and> indexLineOf ''abc'' ''cd'' = -1
   \<and> indexLineOf ''abc'' [] = -1
   \<and> \<lparr>heading_text = ''My Title'', heading_anchor = ''my-title'', heading_renderedLine = 1\<rparr>
      \<in> set (headings (buildIndexes styledModel))
   \<and> indexLineOf (stripANSI (rendered styledModel)) ''My Title'' = 1
   \<and> indexLineOf (rendered styledModel) ''My Title'' = -1
   \<and> \<lparr>link_text = ''site'', link_target = ''https://example.org'', link_renderedLine = -1\<rparr>
      \<in> set (links (buildIndexes styledModel))
   \<and> indexLineOf (stripANSI (rendered styledModel)) ''https://example.org'' = -1
   \<and> indexLineOf (rendered styledModel) ''https://example.org'' = 3
   \<and> ESC \<notin> set ''plain text''
   \<and> stripANSI ''plain text'' = ''plain text''"
proof -
  have sc: "\<lparr>heading_text = ''My Title'', heading_anchor = ''my-title'', heading_renderedLine = 1\<rparr>
      \<in> set (headings (buildIndexes styledModel))"
    "\<lparr>link_text = ''site'', link_target = ''https://example.org'', link_renderedLine = -1\<rparr>
      \<in> set (links (buildIndexes styledModel))"
    by (simp_all add: styledModel_headings styledModel_links)
  have sr: "indexLineOf (rendered styledModel) ''My Title'' = -1"
    "indexLineOf (rendered styledModel) ''https://example.org'' = 3"
    using styled_raw_lines by (simp_all add: styledModel_def)
  from position_resolver[of styledModel "''cd''" 0 "''plain text''"]
  have sq: "\<forall>h\<in>set (headings (buildIndexes styledModel)).
      heading_renderedLine h = indexLineOf (stripANSI (rendered styledModel)) (heading_text h)"
    "\<forall>l\<in>set (links (buildIndexes styledModel)).
      link_renderedLine l
        = indexLineOf (stripANSI (rendered styledModel))
            (if HasPrefix (link_target l) ''#'' then link_text l else link_target l)"
    "ESC \<notin> set ''plain text'' \<longrightarrow> stripANSI ''plain text'' = ''plain text''"
    by simp_all
  have ne: "ESC \<notin> set ''plain text''" by (simp add: ESC_def)
  have st: "indexLineOf (stripANSI (rendered styledModel)) ''My Title'' = 1"
    "indexLineOf (stripANSI (rendered styledModel)) ''https://example.org'' = -1"
    "stripANSI ''plain text'' = ''plain text''"
    using sq(1)[rule_format, OF sc(1)] sq(2)[rule_format, OF sc(2)] sq(3) ne
    by (simp_all add: HasPrefix_def)
  have a: "HasPrefix (drop 4 (''ab'' @ [NL] @ '' cd cd'')) ''cd''"
    "\<forall>i<4. \<not> HasPrefix (drop i (''ab'' @ [NL] @ '' cd cd'')) ''cd''"
    "Count (take 4 (''ab'' @ [NL] @ '' cd cd'')) NL = 1"
    by (simp_all add: HasPrefix_def NL_def Count_def less_Suc_eq numeral_eq_Suc)
  have a': "list_all (\<lambda>i. \<not> HasPrefix (drop i (''ab'' @ [NL] @ '' cd cd'')) ''cd'') [0, 1, 2, 3]"
    by (simp add: HasPrefix_def NL_def numeral_eq_Suc)
  have b: "\<forall>i\<le>length ''abc''. \<not> HasPrefix (drop i ''abc'') ''cd''"
    by (simp add: HasPrefix_def le_Suc_eq)
  have b': "list_all (\<lambda>i. \<not> HasPrefix (drop i ''abc'') ''cd'') [0, 1, 2, 3]"
    by (simp add: HasPrefix_def numeral_eq_Suc)
  have h: "HasPrefix ''#title'' ''#''" "\<not> HasPrefix ''https://example.org'' ''#''"
    by (simp_all add: HasPrefix_def)
  have c: "\<lparr>link_text = ''here'', link_target = ''#title'', link_renderedLine = 3\<rparr>
      \<in> set (links (buildIndexes (docModel 0)))"
    "\<lparr>link_text = ''site'', link_target = ''https://example.org'', link_renderedLine = 3\<rparr>
      \<in> set (links (buildIndexes (docModel 0)))"
    "\<lparr>heading_text = ''Title'', heading_anchor = ''title'', heading_renderedLine = 1\<rparr>
      \<in> set (headings (buildIndexes (docModel 0)))"
    by (simp_all add: docModel_headings docModel_links0)
  from position_resolver[of "docModel 0" "''cd''" 4 "''ab'' @ [NL] @ '' cd cd''"]
  have r: "\<forall>h\<in>set (headings (buildIndexes (docModel 0))).
      heading_renderedLine h = indexLineOf (stripANSI (rendered (docModel 0))) (heading_text h)"
    "\<forall>l\<in>set (links (buildIndexes (docModel 0))).
      link_renderedLine l
        = indexLineOf (stripANSI (rendered (docModel 0)))
            (if HasPrefix (link_target l) ''#'' then link_text l else link_target l)"
    "indexLineOf (''ab'' @ [NL] @ '' cd cd'') ''cd'' = Count (take 4 (''ab'' @ [NL] @ '' cd cd'')) NL"
    using a by simp_all
  from position_resolver[of "docModel 0" "''cd''" 0 "''abc''"] b
  have m: "indexLineOf ''abc'' ''cd'' = -1" by blast
  from position_resolver[of "docModel 0" "[]" 0 "''abc''"]
  have e: "indexLineOf ''abc'' [] = -1" by blast
  show ?thesis
    using a(1,3) a' b' c m e r(3) r(1)[rule_format, OF c(3)] r(2)[rule_format, OF c(1)]
      r(2)[rule_format, OF c(2)] h sc sr st ne
    by simp
qed

subsection \<open>Heading extraction\<close>

text \<open>
  Claim C8 fails on the code. The \<open>\s+\<close> of \<open>reHeading\<close> runs over the line feed: a line
  \<open>"# "\<close> with a blank remainder, followed by the line \<open>"foo"\<close>, gives a heading \<open>"foo"\<close>,
  where the rule of the specification gives none; and a line \<open>"#"\<close> followed by the heading
  line \<open>"## Real"\<close> gives the text \<open>"## Real"\<close> instead of \<open>"Real"\<close>. On the example
  document both agree.
\<close>

theorem heading_extraction_blank_remainder:
  "headingTexts (''# '' @ [NL] @ ''foo'') = [''foo'']
   \<and> spec_headingTexts (''# '' @ [NL] @ ''foo'') = []
   \<and> headingTexts (''#'' @ [NL] @ ''## Real'') = [''## Real'']
   \<and> spec_headingTexts (''#'' @ [NL] @ ''## Real'') = [''Real'']
   \<and> headingTexts demoDoc = [''Title'']
   \<and> spec_headingTexts demoDoc = [''Title'']"
  by code_simp

subsection \<open>The footer\<close>

lemma labelLoop_length: "length (labelLoop start i cs runes) = length runes"
  by (induction cs arbitrary: i runes) auto

lemma labelLoop_fits:
  "start + i + length cs \<le> length runes \<Longrightarrow>
   labelLoop start i cs runes
     = take (start + i) runes @ map Ch cs @ drop (start + i + length cs) runes"
proof (induction cs arbitrary: i runes)
  case Nil
  then show ?case by simp
next
  case (Cons c cs)
  have lt: "start + i < length runes" using Cons.prems by simp
  have "labelLoop start (Suc i) cs (runes[start + i := Ch c])
        = take (start + Suc i) (runes[start + i := Ch c]) @ map Ch cs
          @ drop (start + Suc i + length cs) (runes[start + i := Ch c])"
    using Cons.prems by (intro Cons.IH) simp
  moreover have "take (start + Suc i) (runes[start + i := Ch c]) = take (start + i) runes @ [Ch c]"
    using lt by (simp add: take_Suc_conv_app_nth)
  moreover have "drop (start + Suc i + length cs) (runes[start + i := Ch c])
        = drop (start + i + length (c # cs)) runes"
    by simp
  ultimately show ?case using lt by simp
qed

lemma spec_bar_length: "0 \<le> fill \<Longrightarrow> fill \<le> w \<Longrightarrow> length (spec_bar fill w) = nat w"
  by (simp add: spec_bar_def nat_diff_distrib)

lemma drawProgressBar_narrow:
  "0 \<le> w \<Longrightarrow> w < 3 \<Longrightarrow> drawProgressBar F w ratio label = Inr (replicate (nat w) Full)"
  by (simp add: drawProgressBar_def)

lemma drawProgressBar_wide:
  assumes "3 \<le> w" and "fill = min w (max 0 (toInt F (fmul F (ofInt F w) ratio)))"
  shows "drawProgressBar F w ratio label
         = Inr (if 0 < length label \<and> int (length label) < w
                then spec_centred label (spec_bar fill w) else spec_bar fill w)"
proof -
  have f: "0 \<le> fill" "fill \<le> w" using assms by auto
  have bar: "(let fill0 = toInt F (fmul F (ofInt F w) ratio);
                fill1 = (if fill0 < 0 then 0 else fill0);
                fill = (if fill1 > w then w else fill1)
              in replicate (nat fill) Full
                      @ (if fill < w then replicate (nat (w - fill)) Shade else []))
             = spec_bar fill w"
    using assms by (auto simp: Let_def spec_bar_def min_def max_def)
  have len: "length (spec_bar fill w) = nat w" using f by (rule spec_bar_length)
  show ?thesis
  proof (cases "0 < length label \<and> int (length label) < w")
    case False
    then show ?thesis using assms(1) bar
      by (auto simp: drawProgressBar_def Let_def)
  next
    case True
    define start where "start = (nat w - length label) div 2"
    have sd: "nat ((w - int (length label)) sdiv 2) = start"
      using True by (simp add: start_def signed_divide_int_def nat_div_distrib nat_diff_distrib)
    have fits: "start + 0 + length label \<le> length (spec_bar fill w)"
      using True len by (simp add: start_def) linarith
    have "labelLoop start 0 label (spec_bar fill w) = spec_centred label (spec_bar fill w)"
      using labelLoop_fits[OF fits] by (simp add: spec_centred_def Let_def len start_def)
    then show ?thesis using True assms(1) bar sd
      by (simp add: drawProgressBar_def Let_def)
  qed
qed

lemma footerWidth_pos: "0 < footerWidth m"
  by (simp add: footerWidth_def)

lemma View_progress_eq:
  "View_progress F m = drawProgressBar F (footerWidth m) (View_ratio F m) (View_label m)"
  by (simp add: View_progress_def footerWidth_def Let_def)

lemma View_label_nonempty: "0 < length (View_label m)"
  by (simp add: View_label_def Let_def)

lemma View_ratio_zero:
  "zeroLaws F \<Longrightarrow> totalLines m \<le> Height (view m) \<Longrightarrow> YOffset (view m) = 0 \<Longrightarrow>
   View_ratio F m = ofInt F 0"
  by (simp add: View_ratio_def zeroLaws_def max_go_def Let_def)

lemma spec_centred_set: "set (spec_centred label bar) \<subseteq> set bar \<union> Ch ` set label"
  unfolding spec_centred_def Let_def
  using set_take_subset[of _ bar] set_drop_subset[of _ bar] by auto

lemma spec_centred_length:
  "length label \<le> length bar \<Longrightarrow> length (spec_centred label bar) = length bar"
  by (simp add: spec_centred_def Let_def)



text \<open>
  Claim C9, as amended. The footer is a row of as many cells as the footer is wide, and
  \<open>View\<close> raises no error on the way. Narrower than 3 cells, it is all full blocks. From
  3 cells on, it is \<open>fill\<close> full blocks followed by light shades, where \<open>fill\<close> is
  \<open>int(float64(width) * ratio)\<close> clamped to \<open>[0, width]\<close>, with the label written over its
  centre when the label is shorter than the width. With at least one line and
  \<open>offset + height \<ge> 1\<close> the label is \<open>" c / t "\<close> for \<open>c = min(totalLines, offset + height)\<close>
  and \<open>t = totalLines\<close>. When \<open>totalLines \<le> height\<close> the denominator is 1, and at offset 0 a
  bar of 3 cells or more holds no full block. With exact arithmetic in place of \<open>float64\<close>
  the ratio is \<open>offset / max(1, totalLines - height)\<close> clamped to \<open>[0, 1]\<close>.
\<close>

theorem progress_bar:
  "(\<exists>bar. View_progress F m = Inr bar \<and> int (length bar) = footerWidth m)
   \<and> (footerWidth m < 3 \<longrightarrow>
        View_progress F m = Inr (replicate (nat (footerWidth m)) Full))
   \<and> (3 \<le> footerWidth m \<longrightarrow>
        View_progress F m
          = Inr (let fill = min (footerWidth m)
                              (max 0 (toInt F (fmul F (ofInt F (footerWidth m)) (View_ratio F m))))
                 in if int (length (View_label m)) < footerWidth m
                    then spec_centred (View_label m) (spec_bar fill (footerWidth m))
                    else spec_bar fill (footerWidth m)))
   \<and> (1 \<le> totalLines m \<and> 1 \<le> YOffset (view m) + Height (view m) \<longrightarrow>
        View_label m
          = '' '' @ showInt (min (totalLines m) (YOffset (view m) + Height (view m)))
            @ '' / '' @ showInt (totalLines m) @ '' '')
   \<and> (totalLines m \<le> Height (view m) \<longrightarrow> max_go 1 (totalLines m - Height (view m)) = 1)
   \<and> (zeroLaws F \<and> totalLines m \<le> Height (view m) \<and> YOffset (view m) = 0
        \<and> 3 \<le> footerWidth m \<longrightarrow>
        (\<exists>bar. View_progress F m = Inr bar \<and> Full \<notin> set bar))
   \<and> View_ratio exactFloat m
        = min 1 (max 0 (of_int (YOffset (view m))
                        / of_int (max 1 (totalLines m - Height (view m)))))"
proof -
  define w where "w = footerWidth m"
  define fill where "fill = min w (max 0 (toInt F (fmul F (ofInt F w) (View_ratio F m))))"
  have wpos: "0 < w" unfolding w_def by (rule footerWidth_pos)
  have f: "0 \<le> fill" "fill \<le> w" using wpos by (auto simp: fill_def)
  have wide: "3 \<le> w \<longrightarrow> View_progress F m
          = Inr (if int (length (View_label m)) < w
                 then spec_centred (View_label m) (spec_bar fill w) else spec_bar fill w)"
    using drawProgressBar_wide[of w fill F "View_ratio F m" "View_label m"] View_label_nonempty[of m]
    by (simp add: View_progress_eq w_def[symmetric] fill_def)
  have narrow: "w < 3 \<longrightarrow> View_progress F m = Inr (replicate (nat w) Full)"
    using drawProgressBar_narrow[of w F] wpos by (simp add: View_progress_eq w_def[symmetric])
  have 1: "\<exists>bar. View_progress F m = Inr bar \<and> int (length bar) = w"
  proof (cases "w < 3")
    case True
    then show ?thesis using narrow wpos by simp
  next
    case False
    then have w3: "3 \<le> w" by simp
    have l: "length (spec_bar fill w) = nat w" using f by (rule spec_bar_length)
    show ?thesis
    proof (cases "int (length (View_label m)) < w")
      case True
      then have "length (View_label m) \<le> length (spec_bar fill w)" using l by simp
      then have "length (spec_centred (View_label m) (spec_bar fill w)) = nat w"
        using l by (simp add: spec_centred_length)
      then show ?thesis using wide w3 True wpos by simp
    next
      case False
      then show ?thesis using wide w3 l wpos by simp
    qed
  qed
  have 4: "1 \<le> totalLines m \<and> 1 \<le> YOffset (view m) + Height (view m) \<longrightarrow>
        View_label m
          = '' '' @ showInt (min (totalLines m) (YOffset (view m) + Height (view m)))
            @ '' / '' @ showInt (totalLines m) @ '' ''"
    by (simp add: View_label_def Let_def max_go_def min_def)
  have 5: "totalLines m \<le> Height (view m) \<longrightarrow> max_go 1 (totalLines m - Height (view m)) = 1"
    by (simp add: max_go_def)
  have 6: "zeroLaws F \<and> totalLines m \<le> Height (view m) \<and> YOffset (view m) = 0 \<and> 3 \<le> w \<longrightarrow>
        (\<exists>bar. View_progress F m = Inr bar \<and> Full \<notin> set bar)"
  proof (intro impI, elim conjE)
    assume a: "zeroLaws F" "totalLines m \<le> Height (view m)" "YOffset (view m) = 0" "3 \<le> w"
    have "fill = 0"
      using a(1) wpos by (simp add: fill_def View_ratio_zero[OF a(1,2,3)] zeroLaws_def)
    then have nf: "Full \<notin> set (spec_bar fill w)" by (simp add: spec_bar_def)
    then have "Full \<notin> set (spec_centred (View_label m) (spec_bar fill w))"
      using spec_centred_set[of "View_label m" "spec_bar fill w"] by auto
    with nf show "\<exists>bar. View_progress F m = Inr bar \<and> Full \<notin> set bar"
      using wide a(4) by simp
  qed
  have 7: "View_ratio exactFloat m
        = min 1 (max 0 (of_int (YOffset (view m))
                        / of_int (max 1 (totalLines m - Height (view m)))))"
    by (auto simp: View_ratio_def exactFloat_def Let_def max_go_def min_def max_def)
  show ?thesis
    unfolding Let_def
    using 1[unfolded w_def] narrow[unfolded w_def] wide[unfolded fill_def w_def] 4 5
      6[unfolded w_def] 7
    by (intro conjI) assumption+
qed



lemma exactFloat_zeroLaws: "zeroLaws exactFloat"
  by (simp add: zeroLaws_def exactFloat_def truncRat_def)

lemma showInt_5: "showInt 5 = ''5''"
  by code_simp

lemma narrow_footer_no_label: "View_progress exactFloat (barModel 5 10 5 0) = Inr [Shade, Shade, Shade, Shade, Shade]"
proof -
  have r: "View_ratio exactFloat (barModel 5 10 5 0) = ofInt exactFloat 0"
    using exactFloat_zeroLaws by (intro View_ratio_zero) (simp_all add: barModel_def)
  have w: "footerWidth (barModel 5 10 5 0) = 5" by (simp add: footerWidth_def barModel_def)
  have l: "View_label (barModel 5 10 5 0) = '' 5 / 5 ''"
    by (simp add: View_label_def barModel_def initialModel_def max_go_def showInt_5)
  have f: "(0::int) = min 5 (max 0 (toInt exactFloat (fmul exactFloat (ofInt exactFloat 5) (ofInt exactFloat 0))))"
    by (simp add: exactFloat_def truncRat_def)
  have "drawProgressBar exactFloat 5 (ofInt exactFloat 0) '' 5 / 5 '' = Inr (spec_bar 0 5)"
    using drawProgressBar_wide[of 5 0 exactFloat "ofInt exactFloat 0" "'' 5 / 5 ''", OF _ f] by simp
  then show ?thesis
    by (simp add: View_progress_eq r w l spec_bar_def numeral_eq_Suc)
qed


text \<open>
  Witness for C9: 5 lines in a body of height 10, offset 0, a footer of 20 cells, with
  exact arithmetic: no full block, 20 cells, and the label \<open>" 5 / 5 "\<close>.
\<close>

theorem progress_bar_witness:
  "zeroLaws exactFloat
   \<and> totalLines (barModel 20 10 5 0) \<le> Height (view (barModel 20 10 5 0))
   \<and> YOffset (view (barModel 20 10 5 0)) = 0
   \<and> 3 \<le> footerWidth (barModel 20 10 5 0)
   \<and> (\<exists>bar. View_progress exactFloat (barModel 20 10 5 0) = Inr bar \<and> Full \<notin> set bar
          \<and> length bar = 20)
   \<and> View_label (barModel 20 10 5 0) = '' 5 / 5 ''"
proof -
  have z: "zeroLaws exactFloat" by (simp add: zeroLaws_def exactFloat_def truncRat_def)
  have a: "totalLines (barModel 20 10 5 0) \<le> Height (view (barModel 20 10 5 0))"
    "YOffset (view (barModel 20 10 5 0)) = 0" "3 \<le> footerWidth (barModel 20 10 5 0)"
    by (simp_all add: barModel_def footerWidth_def)
  have b: "footerWidth (barModel 20 10 5 0) = 20"
    "1 \<le> totalLines (barModel 20 10 5 0)
     \<and> 1 \<le> YOffset (view (barModel 20 10 5 0)) + Height (view (barModel 20 10 5 0))"
    "min (totalLines (barModel 20 10 5 0))
      (YOffset (view (barModel 20 10 5 0)) + Height (view (barModel 20 10 5 0))) = 5"
    "totalLines (barModel 20 10 5 0) = 5"
    by (simp_all add: barModel_def footerWidth_def)
  have s5: "showInt 5 = ''5''" by code_simp
  note p = progress_bar[of exactFloat "barModel 20 10 5 0"]
  note p1 = p[THEN conjunct1]
  note p4 = p[THEN conjunct2, THEN conjunct2, THEN conjunct2, THEN conjunct1]
  note p6 = p[THEN conjunct2, THEN conjunct2, THEN conjunct2, THEN conjunct2, THEN conjunct2,
      THEN conjunct1]
  have "\<exists>bar. View_progress exactFloat (barModel 20 10 5 0) = Inr bar \<and> Full \<notin> set bar"
    by (rule p6[THEN mp]) (intro conjI z a)
  then obtain bar where bar: "View_progress exactFloat (barModel 20 10 5 0) = Inr bar"
    "Full \<notin> set bar" by (elim exE conjE)
  from p1 obtain bar' where bar': "View_progress exactFloat (barModel 20 10 5 0) = Inr bar'"
    "int (length bar') = footerWidth (barModel 20 10 5 0)" by (elim exE conjE)
  have "bar' = bar" using bar(1) bar'(1) by simp
  then have len: "length bar = 20" using bar'(2) b(1) by simp
  have e: "\<exists>bar. View_progress exactFloat (barModel 20 10 5 0) = Inr bar \<and> Full \<notin> set bar
          \<and> length bar = 20"
    using bar len by (intro exI[of _ bar] conjI)
  have "View_label (barModel 20 10 5 0)
          = '' '' @ showInt (min (totalLines (barModel 20 10 5 0))
                 (YOffset (view (barModel 20 10 5 0)) + Height (view (barModel 20 10 5 0))))
            @ '' / '' @ showInt (totalLines (barModel 20 10 5 0)) @ '' ''"
    by (rule p4[THEN mp]) (rule b(2))
  then have l: "View_label (barModel 20 10 5 0) = '' 5 / 5 ''"
    by (simp only: b(3)) (simp add: b(4) s5)
  show ?thesis using z a e l by (intro conjI)
qed

text \<open>
  Counterexample to C9 as stated: with 5 lines in a body of height 10 and offset 0, a
  footer of 2 cells is all full blocks, not empty; and a footer of 5 cells carries no
  label, the label \<open>" 5 / 5 "\<close> being 7 characters long.
\<close>

theorem progress_bar_counterexample:
  "totalLines (barModel 2 10 5 0) \<le> Height (view (barModel 2 10 5 0))
   \<and> YOffset (view (barModel 2 10 5 0)) = 0
   \<and> View_progress exactFloat (barModel 2 10 5 0) = Inr [Full, Full]
   \<and> View_progress exactFloat (barModel 5 10 5 0) = Inr [Shade, Shade, Shade, Shade, Shade]"
proof -
  have 1: "View_progress exactFloat (barModel 2 10 5 0) = Inr [Full, Full]"
    by (simp add: View_progress_def barModel_def drawProgressBar_def initialModel_def numeral_2_eq_2)
  have 2: "totalLines (barModel 2 10 5 0) \<le> Height (view (barModel 2 10 5 0))"
    "YOffset (view (barModel 2 10 5 0)) = 0"
    by (simp_all add: barModel_def)
  show ?thesis using 1 2 narrow_footer_no_label by (intro conjI)
qed

subsection \<open>Legal targets and the termination of the animation\<close>













text \<open>
  The End key leaves the bound: \<open>GotoBottom\<close> goes to the last page of the viewport's own
  lines, which are more than \<open>totalLines\<close> when the rendered text ends in line feeds.
\<close>

lemma KeyEnd_beyond_bound:
  "YOffset (view (fst (Update r (demoModel 0 False 0 [] [] (-1)) (KeyMsg KeyEnd)))) = 22
   \<and> max 0 (totalLines (demoModel 0 False 0 [] [] (-1)) - Height (view (demoModel 0 False 0 [] [] (-1)))) = 20"
  by (simp add: demoModel_def GotoBottom_def SetYOffset_def maxYOffset_def)




subsection \<open>The offset bound in reachable states\<close>

lemma reachable_run: "reachable r m \<Longrightarrow> reachable r (run r m xs)"
  by (induction xs arbitrary: m) (auto intro: reachable.step)

lemma demoRendered_split:
  "length (Split (TrimRight demoRendered [NL]) NL) = 4"
  "length (Split (normalizeLineEndings demoRendered) NL) = 6"
  by code_simp+

lemma viewport_same_size: "Width v = w \<Longrightarrow> Height v = h \<Longrightarrow> v\<lparr>Width := w, Height := h\<rparr> = v"
  by (cases v) simp

lemma recalcRendered_demo:
  "view (recalcRendered demoRenderer m w h)
     = SetContent ((view m)\<lparr>Width := w, Height := (if h - 2 < 1 then 1 else h - 2)\<rparr>) demoRendered
   \<and> totalLines (recalcRendered demoRenderer m w h) = 4
   \<and> targetOffset (recalcRendered demoRenderer m w h) = targetOffset m
   \<and> animating (recalcRendered demoRenderer m w h) = animating m"
  by (auto simp: recalcRendered_def demoRenderer_def Let_def buildIndexes_frame demoRendered_split
      viewport_same_size)

lemma SetContent_demo:
  "YOffset v \<le> 5 \<Longrightarrow>
   SetContent v demoRendered = v\<lparr>lines := Split (normalizeLineEndings demoRendered) NL\<rparr>"
  by (simp add: SetContent_def Let_def demoRendered_split)

lemma afterEnd_values:
  "YOffset (view afterEnd) = 3 \<and> totalLines afterEnd = 4 \<and> Height (view afterEnd) = 3"
  by (simp add: afterEnd_def recalcRendered_demo SetContent_demo initialModel_def GotoBottom_def
      SetYOffset_def maxYOffset_def demoRendered_split)

lemma afterResize_values:
  "YOffset (view afterResize) = 1 \<and> totalLines afterResize = 4 \<and> Height (view afterResize) = 22"
  by (simp add: afterResize_def recalcRendered_demo SetContent_demo initialModel_def
      startScrollTo_def scrollTickCase_def Let_def max_go_def SetYOffset_def maxYOffset_def
      demoRendered_split signed_divide_int_def)

text \<open>
  Claim C2 fails on the code. \<open>recalcRendered\<close> counts \<open>totalLines\<close> on the rendered text
  with its trailing line feeds trimmed and hands the untrimmed text to the viewport, so
  the End key, which goes to the bottom of the viewport's lines, reaches offset 3 where
  \<open>max(0, totalLines - Height)\<close> is 1. And a resize does not clamp the offset: after one
  line down and a resize to a taller terminal the offset is 1 where the bound is 0. Both
  states are reachable.
\<close>

theorem offset_bound_broken:
  "reachable demoRenderer afterEnd
   \<and> YOffset (view afterEnd) = 3
   \<and> max 0 (totalLines afterEnd - Height (view afterEnd)) = 1
   \<and> reachable demoRenderer afterResize
   \<and> YOffset (view afterResize) = 1
   \<and> max 0 (totalLines afterResize - Height (view afterResize)) = 0"
proof -
  have r: "reachable demoRenderer afterEnd" "reachable demoRenderer afterResize"
    unfolding afterEnd_def afterResize_def by (intro reachable_run reachable.start)+
  show ?thesis using r afterEnd_values afterResize_values by simp
qed

end
